theory Spec2Isabelle
  imports Complex_Main "HOL-Library.Sublist"
begin

section \<open>ha-tools: the energy export pipeline (cmd/energy.go) and its helpers\<close>

text \<open>
  A shallow embedding of the Go code that exports Home Assistant telemetry.  Mutable
  variables of the source (the fields of \<open>minuteAverager\<close>, the variables captured by
  the closures \<open>flushBatch\<close> and \<open>appendRow\<close>) are record fields that every
  operation takes and returns.  A Go \<open>error\<close> result is an \<open>error option\<close>
  (\<open>None\<close> is \<open>nil\<close>) beside the updated state, because the Go code keeps its
  mutations when it returns an error.
\<close>

subsection \<open>Values of the standard library\<close>

text \<open>
  \<open>time.Time\<close> is the instant it denotes, in nanoseconds since Go's zero time
  (January 1, year 1, 00:00:00 UTC), so \<open>time.Time{}\<close> is \<open>0\<close>, \<open>t.After(u)\<close> is
  \<open>u < t\<close> and \<open>t.Equal(u)\<close> is \<open>t = u\<close>.  Locations only affect printing.
\<close>

type_synonym Time = int

definition After :: "Time \<Rightarrow> Time \<Rightarrow> bool" where
  "After t u = (u < t)"

definition IsZero :: "Time \<Rightarrow> bool" where
  "IsZero t = (t = 0)"

definition Minute :: int where
  "Minute = 60000000000"

text \<open>
  \<open>t.Truncate(d)\<close> rounds \<open>t\<close> down to a multiple of \<open>d\<close> since the zero time; for
  \<open>d \<le> 0\<close> it returns \<open>t\<close>.  The remainder Go computes is never negative, also for
  instants before the zero time, which is \<open>mod\<close> on \<open>int\<close>.
\<close>

definition Truncate :: "Time \<Rightarrow> int \<Rightarrow> Time" where
  "Truncate t d = (if d \<le> 0 then t else t - t mod d)"

text \<open>
  \<open>sql.NullFloat64\<close>, \<open>sql.NullString\<close> and \<open>sql.NullTime\<close> are a value and the
  flag \<open>Valid\<close>; the field \<open>V\<close> stands for \<open>Float64\<close>, \<open>String\<close> and \<open>Time\<close>.
  The zero value \<open>sql.NullTime{}\<close> is invalid with the zero time inside.
\<close>

record 'a Null =
  V :: 'a
  Valid :: bool

type_synonym NullString = "string Null"
type_synonym NullTime = "Time Null"

definition NullString_zero :: NullString where
  "NullString_zero = \<lparr>V = [], Valid = False\<rparr>"

definition NullTime_zero :: NullTime where
  "NullTime_zero = \<lparr>V = 0, Valid = False\<rparr>"

text \<open>
  A Go error is its message, or a message wrapping another error
  (\<open>fmt.Errorf("...: %w", err)\<close>); \<open>WrapId\<close> is a wrapping message that also prints
  a row identifier with \<open>%d\<close>.
\<close>

datatype error = Err string | Wrap string error | WrapId string int error

subsection \<open>Rows and the minute averager\<close>

record energyMetadata =
  Unit :: NullString
  DeviceClass :: NullString
  StateClass :: NullString
  FriendlyName :: NullString

definition energyMetadata_zero :: energyMetadata where
  "energyMetadata_zero = \<lparr>Unit = NullString_zero, DeviceClass = NullString_zero,
     StateClass = NullString_zero, FriendlyName = NullString_zero\<rparr>"

text \<open>The type \<open>'f\<close> is \<open>float64\<close>.\<close>

record 'f energyRow =
  stateID :: int
  entityID :: string
  state :: string
  numericState :: "'f Null"
  meta :: energyMetadata
  lastUpdated :: NullTime

text \<open>
  What \<open>encoding/json\<close> puts into a \<open>map[string]any\<close>, and the other dynamic
  types that \<open>pickFloat\<close> switches on.  A \<open>float32\<close> is held as the \<open>float64\<close>
  it converts to, which is exact.
\<close>

datatype 'f any = ANil | AFloat64 'f | AFloat32 'f | AInt int | AInt64 int
  | ANumber string | AString string | AOther

datatype 'f arg = ArgString string | ArgNullFloat64 "'f Null" | ArgNullString NullString
  | ArgNullTime NullTime

text \<open>
  What the code takes from outside, as the parameter \<open>lib\<close> of every definition: the
  arithmetic of \<open>float64\<close> (\<open>+\<close>, \<open>*\<close>, \<open>/\<close>, the conversions \<open>float64(n)\<close> and
  \<open>int64(x)\<close>, the constants \<open>0\<close> and \<open>1e9\<close>), \<open>math.Modf\<close>, \<open>math.IsNaN\<close>,
  \<open>strconv.ParseFloat(s, 64)\<close>, \<open>strconv.FormatFloat(x, 'f', -1, 64)\<close>, the decoder
  of \<open>encoding/json\<close> on an input that is not blank, the helper \<open>pickString\<close>, whose
  definition is not among the source files, and the sink: \<open>ExecContext\<close> gives the
  error of a statement from the statements executed before it, the statement's text and
  its arguments.  Every theorem holds for whatever these compute.
\<close>

record 'f lib =
  fzero :: 'f
  fadd :: "'f \<Rightarrow> 'f \<Rightarrow> 'f"
  fmul :: "'f \<Rightarrow> 'f \<Rightarrow> 'f"
  fdiv :: "'f \<Rightarrow> 'f \<Rightarrow> 'f"
  float64_of_int :: "int \<Rightarrow> 'f"
  int64_of_float :: "'f \<Rightarrow> int"
  f1e9 :: 'f
  Modf :: "'f \<Rightarrow> 'f \<times> 'f"
  IsNaN :: "'f \<Rightarrow> bool"
  ParseFloat :: "string \<Rightarrow> error + 'f"
  FormatFloat :: "'f \<Rightarrow> string"
  decodeObject :: "string \<Rightarrow> error + (string \<rightharpoonup> 'f any)"
  pickString :: "'f any \<Rightarrow> string option"
  ExecContext :: "(string \<times> 'f arg list) list \<Rightarrow> string \<Rightarrow> 'f arg list \<Rightarrow> error option"

text \<open>
  The fields of \<open>minuteAverager\<close>, prefixed with the receiver's name \<open>m\<close>.  The field
  \<open>emit\<close> is the parameter \<open>emit\<close> of \<open>Add\<close> and \<open>Flush\<close>: a function on the state
  \<open>'s\<close> of whoever receives the rows, returning the error and the new state.
\<close>

record 'f minuteAverager =
  m_active :: bool
  m_entityID :: string
  m_minute :: Time
  m_sum :: 'f
  m_count :: int
  m_maxTime :: Time
  m_maxTimeValid :: bool
  m_stateID :: int
  m_meta :: energyMetadata

type_synonym ('f, 's) emitter = "'f energyRow \<Rightarrow> 's \<Rightarrow> error option \<times> 's"

definition newMinuteAverager :: "'f lib \<Rightarrow> 'f minuteAverager" where
  "newMinuteAverager lib = \<lparr>m_active = False, m_entityID = [], m_minute = 0, m_sum = fzero lib,
     m_count = 0, m_maxTime = 0, m_maxTimeValid = False, m_stateID = 0,
     m_meta = energyMetadata_zero\<rparr>"

definition reset :: "'f lib \<Rightarrow> 'f minuteAverager \<Rightarrow> 'f minuteAverager" where
  "reset lib m = m\<lparr>m_active := False, m_entityID := [], m_minute := 0, m_sum := fzero lib,
     m_count := 0, m_maxTime := 0, m_maxTimeValid := False, m_stateID := 0,
     m_meta := energyMetadata_zero\<rparr>"

text \<open>
  \<open>Flush\<close>: nothing when idle; otherwise the deferred \<open>reset\<close> runs on every path,
  after \<open>emit\<close> where there is one.  \<open>emit\<close> does not touch the averager.
\<close>

definition Flush ::
  "'f lib \<Rightarrow> ('f, 's) emitter \<Rightarrow> 'f minuteAverager \<Rightarrow> 's
     \<Rightarrow> error option \<times> 'f minuteAverager \<times> 's" where
  "Flush lib emit m s =
     (if \<not> m_active m then (None, m, s)
      else if m_count m = 0 \<or> \<not> m_maxTimeValid m then (None, reset lib m, s)
      else
        let avg = fdiv lib (m_sum m) (float64_of_int lib (m_count m));
            row = \<lparr>stateID = m_stateID m, entityID = m_entityID m,
                   state = FormatFloat lib avg,
                   numericState = \<lparr>V = avg, Valid = True\<rparr>,
                   meta = m_meta m,
                   lastUpdated = \<lparr>V = m_maxTime m, Valid = True\<rparr>\<rparr>;
            (err, s') = emit row s
        in (err, reset lib m, s'))"

text \<open>
  \<open>Add\<close>, in the order of the source: flush on a boundary (returning its error), open a
  group when idle, add to the sum and the count, then update the representative.
\<close>

definition Add ::
  "'f lib \<Rightarrow> ('f, 's) emitter \<Rightarrow> 'f minuteAverager \<Rightarrow> 'f energyRow \<Rightarrow> 's
     \<Rightarrow> error option \<times> 'f minuteAverager \<times> 's" where
  "Add lib emit m row s =
     (let minute = Truncate (V (lastUpdated row)) Minute;
          (err, m1, s1) =
             (if m_active m \<and> (entityID row \<noteq> m_entityID m \<or> minute \<noteq> m_minute m)
              then Flush lib emit m s else (None, m, s))
      in case err of
           Some e \<Rightarrow> (Some e, m1, s1)
         | None \<Rightarrow>
             let m2 = (if \<not> m_active m1
                       then m1\<lparr>m_active := True, m_entityID := entityID row,
                               m_minute := minute, m_sum := fzero lib, m_count := 0,
                               m_maxTime := 0, m_maxTimeValid := False\<rparr>
                       else m1);
                 m3 = m2\<lparr>m_sum := fadd lib (m_sum m2) (V (numericState row)),
                         m_count := m_count m2 + 1\<rparr>;
                 m4 = (if \<not> m_maxTimeValid m3
                          \<or> After (V (lastUpdated row)) (m_maxTime m3)
                          \<or> (V (lastUpdated row) = m_maxTime m3 \<and> stateID row > m_stateID m3)
                       then m3\<lparr>m_maxTime := V (lastUpdated row), m_maxTimeValid := True,
                               m_stateID := stateID row, m_meta := meta row\<rparr>
                       else m3)
             in (None, m4, s1))"

subsection \<open>Strings\<close>

text \<open>
  A Go string is its bytes.  \<open>strings.TrimSpace\<close> removes the leading and the trailing
  runes for which \<open>unicode.IsSpace\<close> holds.  In UTF-8 these are the bytes 9 to 13 and
  32, the two-byte encodings of U+0085 and U+00A0, and the three-byte encodings of
  U+1680, U+2000 to U+200A, U+2028, U+2029, U+202F, U+205F and U+3000.
\<close>

definition isSpace1 :: "char \<Rightarrow> bool" where
  "isSpace1 a = (let x = (of_char a :: nat) in (9 \<le> x \<and> x \<le> 13) \<or> x = 32)"

definition isSpace2 :: "char \<Rightarrow> char \<Rightarrow> bool" where
  "isSpace2 a b = (let x = (of_char a :: nat); y = (of_char b :: nat)
                   in x = 0xC2 \<and> (y = 0x85 \<or> y = 0xA0))"

definition isSpace3 :: "char \<Rightarrow> char \<Rightarrow> char \<Rightarrow> bool" where
  "isSpace3 a b c = (let x = (of_char a :: nat); y = (of_char b :: nat); z = (of_char c :: nat)
                     in (x = 0xE1 \<and> y = 0x9A \<and> z = 0x80)
                      \<or> (x = 0xE2 \<and> y = 0x80
                           \<and> ((0x80 \<le> z \<and> z \<le> 0x8A) \<or> z = 0xA8 \<or> z = 0xA9 \<or> z = 0xAF))
                      \<or> (x = 0xE2 \<and> y = 0x81 \<and> z = 0x9F)
                      \<or> (x = 0xE3 \<and> y = 0x80 \<and> z = 0x80))"

fun TrimLeft :: "string \<Rightarrow> string" where
  "TrimLeft [] = []"
| "TrimLeft [a] = (if isSpace1 a then [] else [a])"
| "TrimLeft [a, b] =
     (if isSpace1 a then TrimLeft [b] else if isSpace2 a b then [] else [a, b])"
| "TrimLeft (a # b # c # s) =
     (if isSpace1 a then TrimLeft (b # c # s)
      else if isSpace2 a b then TrimLeft (c # s)
      else if isSpace3 a b c then TrimLeft s
      else a # b # c # s)"

text \<open>\<open>TrimRightRev\<close> is the same on the reversed string, whose runes end first.\<close>

fun TrimRightRev :: "string \<Rightarrow> string" where
  "TrimRightRev [] = []"
| "TrimRightRev [a] = (if isSpace1 a then [] else [a])"
| "TrimRightRev [a, b] =
     (if isSpace1 a then TrimRightRev [b] else if isSpace2 b a then [] else [a, b])"
| "TrimRightRev (a # b # c # s) =
     (if isSpace1 a then TrimRightRev (b # c # s)
      else if isSpace2 b a then TrimRightRev (c # s)
      else if isSpace3 c b a then TrimRightRev s
      else a # b # c # s)"

definition TrimSpace :: "string \<Rightarrow> string" where
  "TrimSpace s = rev (TrimRightRev (rev (TrimLeft s)))"

text \<open>
  \<open>strings.ToLower\<close> on the letters A to Z; bytes beyond ASCII are left as they are.
  Go also maps the letters beyond ASCII, two of them to ASCII letters (to \<open>i\<close> and to
  \<open>k\<close>), neither of which occurs in \<open>_voltage\<close> or \<open>_current\<close>, so the test
  \<open>needsMinuteAverage\<close> is the same.  Home Assistant's entity identifiers are ASCII.
\<close>

definition ToLower :: "string \<Rightarrow> string" where
  "ToLower s =
     map (\<lambda>a. case map_of (zip ''ABCDEFGHIJKLMNOPQRSTUVWXYZ'' ''abcdefghijklmnopqrstuvwxyz'') a of
                 Some b \<Rightarrow> b
               | None \<Rightarrow> a) s"

fun Contains :: "string \<Rightarrow> string \<Rightarrow> bool" where
  "Contains [] substr = (substr = [])"
| "Contains (a # s) substr = (prefix substr (a # s) \<or> Contains s substr)"

subsection \<open>Payloads and the state string\<close>

text \<open>
  \<open>json.Unmarshal\<close> into a \<open>map[string]any\<close>.  An input with no byte other than
  JSON's white space (space, tab, line feed, carriage return) is rejected with
  "unexpected end of JSON input"; on any other input the decoder is \<open>decodeObject\<close>.
\<close>

definition Unmarshal :: "'f lib \<Rightarrow> string \<Rightarrow> error + (string \<rightharpoonup> 'f any)" where
  "Unmarshal lib data =
     (if list_all (\<lambda>a. (of_char a :: nat) \<in> {32, 9, 10, 13}) data
      then Inl (Err ''unexpected end of JSON input'')
      else decodeObject lib data)"

text \<open>\<open>attrs[key]\<close>: the zero value \<open>nil\<close> when the key is missing.\<close>

definition index :: "(string \<rightharpoonup> 'f any) \<Rightarrow> string \<Rightarrow> 'f any" where
  "index attrs k = (case attrs k of None \<Rightarrow> ANil | Some v \<Rightarrow> v)"

definition some_string :: "string option \<Rightarrow> NullString" where
  "some_string r = (case r of Some v \<Rightarrow> \<lparr>V = v, Valid = True\<rparr> | None \<Rightarrow> NullString_zero)"

definition extractEnergyMetadata :: "'f lib \<Rightarrow> string \<Rightarrow> error + energyMetadata" where
  "extractEnergyMetadata lib raw =
     (let trimmed = TrimSpace raw
      in if trimmed = [] then Inr energyMetadata_zero
         else case Unmarshal lib trimmed of
                Inl e \<Rightarrow> Inl (Wrap ''unmarshal shared_attrs'' e)
              | Inr attrs \<Rightarrow>
                  Inr \<lparr>Unit = some_string (pickString lib (index attrs ''unit_of_measurement'')),
                       DeviceClass = some_string (pickString lib (index attrs ''device_class'')),
                       StateClass = some_string (pickString lib (index attrs ''state_class'')),
                       FriendlyName = some_string (pickString lib (index attrs ''friendly_name''))\<rparr>)"

definition Null_zero :: "'f lib \<Rightarrow> 'f Null" where
  "Null_zero lib = \<lparr>V = fzero lib, Valid = False\<rparr>"

definition parseNumericState :: "'f lib \<Rightarrow> string \<Rightarrow> 'f Null" where
  "parseNumericState lib raw =
     (if raw = [] then Null_zero lib
      else case ParseFloat lib raw of
             Inl e \<Rightarrow> Null_zero lib
           | Inr f \<Rightarrow> \<lparr>V = f, Valid = True\<rparr>)"

fun pickFloat :: "'f lib \<Rightarrow> 'f any \<Rightarrow> 'f option" where
  "pickFloat lib ANil = None"
| "pickFloat lib (AFloat64 val) = Some val"
| "pickFloat lib (AFloat32 val) = Some val"
| "pickFloat lib (AInt val) = Some (float64_of_int lib val)"
| "pickFloat lib (AInt64 val) = Some (float64_of_int lib val)"
| "pickFloat lib (ANumber val) =
     (case ParseFloat lib val of Inl e \<Rightarrow> None | Inr f \<Rightarrow> Some f)"
| "pickFloat lib (AString val) =
     (if val = [] then None
      else case ParseFloat lib val of Inl e \<Rightarrow> None | Inr f \<Rightarrow> Some f)"
| "pickFloat lib AOther = None"

definition some_float :: "'f lib \<Rightarrow> 'f option \<Rightarrow> 'f Null" where
  "some_float lib r = (case r of Some v \<Rightarrow> \<lparr>V = v, Valid = True\<rparr> | None \<Rightarrow> Null_zero lib)"

text \<open>\<open>extractCoordinates\<close> returns latitude, longitude and accuracy, or the error.\<close>

definition extractCoordinates :: "'f lib \<Rightarrow> string \<Rightarrow> error + ('f Null \<times> 'f Null \<times> 'f Null)" where
  "extractCoordinates lib raw =
     (if raw = [] then Inr (Null_zero lib, Null_zero lib, Null_zero lib)
      else case Unmarshal lib raw of
             Inl e \<Rightarrow> Inl (Wrap ''unmarshal shared_attrs'' e)
           | Inr attrs \<Rightarrow>
               Inr (some_float lib (pickFloat lib (index attrs ''latitude'')),
                    some_float lib (pickFloat lib (index attrs ''longitude'')),
                    some_float lib (pickFloat lib (index attrs ''gps_accuracy''))))"

subsection \<open>Timestamps\<close>

text \<open>
  \<open>int64\<close> arithmetic wraps; \<open>/\<close> on integers truncates towards zero.
\<close>

definition wrap64 :: "int \<Rightarrow> int" where
  "wrap64 x = (x + 2 ^ 63) mod 2 ^ 64 - 2 ^ 63"

definition quot :: "int \<Rightarrow> int \<Rightarrow> int" where
  "quot a b = (if a < 0 then - ((- a) div b) else a div b)"

definition unixToInternal :: int where
  "unixToInternal = (1969 * 365 + 1969 div 4 - 1969 div 100 + 1969 div 400) * 86400"

text \<open>
  \<open>time.Unix(sec, nsec)\<close>: \<open>nsec\<close> outside \<open>[0, 999999999]\<close> is carried into \<open>sec\<close>,
  then the seconds are counted from the zero time.
\<close>

definition Unix :: "int \<Rightarrow> int \<Rightarrow> Time" where
  "Unix sec nsec =
     (let (sec1, nsec1) =
            (if nsec < 0 \<or> nsec \<ge> 1000000000
             then let n = quot nsec 1000000000;
                      sec' = wrap64 (sec + n);
                      nsec' = nsec - n * 1000000000
                  in if nsec' < 0 then (wrap64 (sec' - 1), nsec' + 1000000000)
                     else (sec', nsec')
             else (sec, nsec))
      in wrap64 (sec1 + unixToInternal) * 1000000000 + nsec1)"

definition floatToNullTime :: "'f lib \<Rightarrow> 'f Null \<Rightarrow> error + NullTime" where
  "floatToNullTime lib v =
     (if \<not> Valid v then Inr NullTime_zero
      else
        let (seconds, frac) = Modf lib (V v)
        in if IsNaN lib seconds \<or> IsNaN lib frac
           then Inl (Err ''invalid float for timestamp'')
           else
             let t = Unix (int64_of_float lib seconds)
                          (int64_of_float lib (fmul lib frac (f1e9 lib)))
             in if IsZero t then Inr NullTime_zero
                else Inr \<lparr>V = t, Valid = True\<rparr>)"

subsection \<open>Which rows are averaged\<close>

definition energyMinuteAverageTokens :: "string list" where
  "energyMinuteAverageTokens = [''_voltage'', ''_current'', ''_current_consumption'']"

definition needsMinuteAverage :: "string \<Rightarrow> bool" where
  "needsMinuteAverage eid =
     (let lowered = ToLower eid
      in list_ex (\<lambda>token. Contains lowered token) energyMinuteAverageTokens)"

definition shouldAggregateRow :: "'f energyRow \<Rightarrow> bool" where
  "shouldAggregateRow row =
     (Valid (lastUpdated row) \<and> Valid (numericState row) \<and> needsMinuteAverage (entityID row))"

subsection \<open>The batch writer: the closures of transferEnergyData\<close>

text \<open>
  The variables that \<open>flushBatch\<close> and \<open>appendRow\<close> capture.  \<open>executed\<close> is not a
  variable of the source: it lists the statements handed to \<open>mysqlDB.ExecContext\<close> so
  far, the failed one included, each with its arguments.
\<close>

record 'f batch =
  args :: "'f arg list"
  valueSegments :: string
  rowCount :: int
  entityWatermarks :: "string \<rightharpoonup> Time"
  executed :: "(string \<times> 'f arg list) list"

definition joinLines :: "string list \<Rightarrow> string" where
  "joinLines ls = concat (map (\<lambda>l. CHR 0x0A # l) ls)"

definition upsertPrefix :: string where
  "upsertPrefix = joinLines
     [''INSERT INTO energy_points('',
      ''    entity_id,'',
      ''    state,'',
      ''    numeric_state,'',
      ''    unit,'',
      ''    device_class,'',
      ''    state_class,'',
      ''    friendly_name,'',
      ''    last_updated'',
      '') VALUES'']"

definition upsertSuffix :: string where
  "upsertSuffix = joinLines
     [''ON DUPLICATE KEY UPDATE'',
      ''    entity_id = VALUES(entity_id),'',
      ''    state = VALUES(state),'',
      ''    numeric_state = VALUES(numeric_state),'',
      ''    unit = VALUES(unit),'',
      ''    device_class = VALUES(device_class),'',
      ''    state_class = VALUES(state_class),'',
      ''    friendly_name = VALUES(friendly_name),'',
      ''    last_updated = VALUES(last_updated)''] @ [CHR 0x0A]"

definition energyBatchSize :: int where
  "energyBatchSize = 500"

definition flushBatch :: "'f lib \<Rightarrow> 'f batch \<Rightarrow> error option \<times> 'f batch" where
  "flushBatch lib b =
     (if rowCount b = 0 then (None, b)
      else
        let query = upsertPrefix @ valueSegments b @ [CHR 0x0A] @ upsertSuffix;
            b1 = b\<lparr>executed := executed b @ [(query, args b)]\<rparr>
        in case ExecContext lib (executed b) query (args b) of
             Some e \<Rightarrow> (Some (Wrap ''upsert mysql rows'' e), b1)
           | None \<Rightarrow> (None, b1\<lparr>valueSegments := [], args := [], rowCount := 0\<rparr>))"

definition appendRow :: "'f lib \<Rightarrow> 'f energyRow \<Rightarrow> 'f batch \<Rightarrow> error option \<times> 'f batch" where
  "appendRow lib row b =
     (let b1 = (if rowCount b > 0 then b\<lparr>valueSegments := valueSegments b @ '',''\<rparr> else b);
          b2 = b1\<lparr>valueSegments := valueSegments b1 @ CHR 0x0A # ''    (?, ?, ?, ?, ?, ?, ?, ?)''\<rparr>;
          b3 = b2\<lparr>args := args b2 @
                  [ArgString (entityID row),
                   ArgString (state row),
                   ArgNullFloat64 (numericState row),
                   ArgNullString (Unit (meta row)),
                   ArgNullString (DeviceClass (meta row)),
                   ArgNullString (StateClass (meta row)),
                   ArgNullString (FriendlyName (meta row)),
                   ArgNullTime (lastUpdated row)]\<rparr>;
          b4 = (if Valid (lastUpdated row)
                then (case entityWatermarks b3 (entityID row) of
                        None \<Rightarrow> b3\<lparr>entityWatermarks :=
                                   (entityWatermarks b3)(entityID row \<mapsto> V (lastUpdated row))\<rparr>
                      | Some current \<Rightarrow>
                          if After (V (lastUpdated row)) current
                          then b3\<lparr>entityWatermarks :=
                                   (entityWatermarks b3)(entityID row \<mapsto> V (lastUpdated row))\<rparr>
                          else b3)
                else b3);
          b5 = b4\<lparr>rowCount := rowCount b4 + 1\<rparr>
      in if rowCount b5 \<ge> energyBatchSize then flushBatch lib b5 else (None, b5))"

subsection \<open>The pipeline driver: the loop of transferEnergyData\<close>

text \<open>The variables that \<open>rows.Scan\<close> fills for one row of the source query.\<close>

record 'f scanned =
  src_stateID :: int
  src_entityID :: string
  src_state :: string
  src_lastUpdatedVal :: "'f Null"
  src_attributesJSON :: string

text \<open>
  \<open>loadEnergyEntityWatermarks\<close> on the rows that its query returned (entity and the
  maximum of \<open>last_updated\<close>): an entity whose maximum is \<open>NULL\<close> gets no entry.
\<close>

definition loadEnergyEntityWatermarks :: "(string \<times> NullTime) list \<Rightarrow> (string \<rightharpoonup> Time)" where
  "loadEnergyEntityWatermarks result =
     foldl (\<lambda>watermarks (eid, ts). if Valid ts then watermarks(eid \<mapsto> V ts) else watermarks)
           Map.empty result"

text \<open>
  One iteration of \<open>for rows.Next()\<close>.  The item is what \<open>rows.Scan\<close> gave: an error
  or the scanned variables.  \<open>continue\<close> and the end of the body both return no error.
\<close>

definition loopBody ::
  "'f lib \<Rightarrow> 'f minuteAverager \<Rightarrow> 'f batch \<Rightarrow> error + 'f scanned
     \<Rightarrow> error option \<times> 'f minuteAverager \<times> 'f batch" where
  "loopBody lib m b item =
     (case item of
        Inl e \<Rightarrow> (Some (Wrap ''scan sqlite row'' e), m, b)
      | Inr r \<Rightarrow>
          (case floatToNullTime lib (src_lastUpdatedVal r) of
             Inl e \<Rightarrow> (Some (WrapId ''convert last_updated_ts for state_id'' (src_stateID r) e), m, b)
           | Inr lastUpdated' \<Rightarrow>
               if Valid lastUpdated'
                  \<and> (case entityWatermarks b (src_entityID r) of
                        Some watermark \<Rightarrow> \<not> After (V lastUpdated') watermark
                      | None \<Rightarrow> False)
               then (None, m, b)
               else
                 (case extractEnergyMetadata lib (src_attributesJSON r) of
                    Inl e \<Rightarrow> (Some (WrapId ''parse attributes for state_id'' (src_stateID r) e), m, b)
                  | Inr meta' \<Rightarrow>
                      let row = \<lparr>stateID = src_stateID r, entityID = src_entityID r,
                                 state = src_state r,
                                 numericState = parseNumericState lib (src_state r),
                                 meta = meta', lastUpdated = lastUpdated'\<rparr>
                      in if shouldAggregateRow row then Add lib (appendRow lib) m row b
                         else
                           (case Flush lib (appendRow lib) m b of
                              (Some e, m1, b1) \<Rightarrow> (Some e, m1, b1)
                            | (None, m1, b1) \<Rightarrow>
                                let (err, b2) = appendRow lib row b1 in (err, m1, b2)))))"

fun transferLoop ::
  "'f lib \<Rightarrow> 'f minuteAverager \<Rightarrow> 'f batch \<Rightarrow> (error + 'f scanned) list
     \<Rightarrow> error option \<times> 'f minuteAverager \<times> 'f batch" where
  "transferLoop lib m b [] = (None, m, b)"
| "transferLoop lib m b (item # items) =
     (case loopBody lib m b item of
        (Some e, m1, b1) \<Rightarrow> (Some e, m1, b1)
      | (None, m1, b1) \<Rightarrow> transferLoop lib m1 b1 items)"

text \<open>
  \<open>transferEnergyData\<close> from the point where the watermarks are loaded and the source
  query has been issued: \<open>watermarks\<close> is the loaded map, \<open>items\<close> what the cursor
  yields and \<open>rowsErr\<close> the result of \<open>rows.Err()\<close> after the loop.  Opening the
  databases and creating the table come before and are not part of the model.
\<close>

definition transferEnergyData ::
  "'f lib \<Rightarrow> (string \<rightharpoonup> Time) \<Rightarrow> (error + 'f scanned) list \<Rightarrow> error option
     \<Rightarrow> error option \<times> 'f minuteAverager \<times> 'f batch" where
  "transferEnergyData lib watermarks items rowsErr =
     (let b0 = \<lparr>args = [], valueSegments = [], rowCount = 0,
                 entityWatermarks = watermarks, executed = []\<rparr>
      in case transferLoop lib (newMinuteAverager lib) b0 items of
           (Some e, m1, b1) \<Rightarrow> (Some e, m1, b1)
         | (None, m1, b1) \<Rightarrow>
             (case rowsErr of
                Some e \<Rightarrow> (Some (Wrap ''iterate sqlite rows'' e), m1, b1)
              | None \<Rightarrow>
                  (case Flush lib (appendRow lib) m1 b1 of
                     (Some e, m2, b2) \<Rightarrow> (Some e, m2, b2)
                   | (None, m2, b2) \<Rightarrow>
                       let (err, b3) = flushBatch lib b2 in (err, m2, b3))))"

subsection \<open>The table energy_points\<close>

text \<open>
  The statements that read and write the sink are SQL in the source, executed by the
  database.  The following definitions say what they do to the two columns that the
  watermarks depend on, \<open>entity_id\<close> and \<open>last_updated\<close>; a row of the table is a
  pair of them.

  \<open>ensureEnergyPointsTable\<close> creates \<open>state_id\<close> as the only key, with
  \<open>AUTO_INCREMENT\<close>, and the \<open>INSERT\<close> of \<open>transferEnergyData\<close> names no
  \<open>state_id\<close>: every tuple of \<open>VALUES\<close> becomes a new row, and \<open>ON DUPLICATE KEY
  UPDATE\<close> never applies.  The tuples of a statement are read off its arguments, eight
  a row, in the order in which \<open>appendRow\<close> appends them.  The column \<open>last_updated\<close>
  is \<open>DATETIME NULL\<close>; what such a column holds of an instant is the parameter
  \<open>keep\<close> (a column without fractional digits holds whole seconds).  Entities are
  told apart as the Go code tells strings apart.

  The query of \<open>loadEnergyEntityWatermarks\<close> groups the rows by \<open>entity_id\<close> and
  takes \<open>MAX(last_updated)\<close>, which skips \<open>NULL\<close> and is \<open>NULL\<close> for a group
  without any timestamp.
\<close>

type_synonym point = "string \<times> NullTime"

fun tuples :: "'f arg list \<Rightarrow> point list" where
  "tuples (ArgString e # s # n # u # d # c # f # ArgNullTime t # rest) = (e, t) # tuples rest"
| "tuples other = []"

definition written :: "(string \<times> 'f arg list) list \<Rightarrow> point list" where
  "written stmts = concat (map (\<lambda>stmt. tuples (snd stmt)) stmts)"

definition stored :: "(Time \<Rightarrow> Time) \<Rightarrow> point \<Rightarrow> point" where
  "stored keep p =
     (fst p, if Valid (snd p) then \<lparr>V = keep (V (snd p)), Valid = True\<rparr> else NullTime_zero)"

definition insertRows ::
  "(Time \<Rightarrow> Time) \<Rightarrow> point list \<Rightarrow> (string \<times> 'f arg list) list \<Rightarrow> point list" where
  "insertRows keep table stmts = table @ map (stored keep) (written stmts)"

definition maxLastUpdated :: "NullTime list \<Rightarrow> NullTime" where
  "maxLastUpdated ts =
     (case filter Valid ts of
        [] \<Rightarrow> NullTime_zero
      | t # rest \<Rightarrow> \<lparr>V = fold max (map V rest) (V t), Valid = True\<rparr>)"

definition selectWatermarks :: "point list \<Rightarrow> (string \<times> NullTime) list" where
  "selectWatermarks table =
     map (\<lambda>e. (e, maxLastUpdated (map snd (filter (\<lambda>p. fst p = e) table))))
         (remdups (map fst table))"

text \<open>The watermarks that a run loads from a table.\<close>

definition loadedWatermarks :: "point list \<Rightarrow> (string \<rightharpoonup> Time)" where
  "loadedWatermarks table = loadEnergyEntityWatermarks (selectWatermarks table)"

section \<open>What the averager is expected to emit\<close>

text \<open>
  The definitions of this section are not translations of the source.  They say which
  rows the claims expect: the maximal runs of adjacent rows with the same entity and
  minute, the representative of a run and the row that stands for a run.
\<close>

definition sameGroup :: "'f energyRow \<Rightarrow> 'f energyRow \<Rightarrow> bool" where
  "sameGroup a r =
     (entityID r = entityID a
      \<and> Truncate (V (lastUpdated r)) Minute = Truncate (V (lastUpdated a)) Minute)"

function runs :: "'f energyRow list \<Rightarrow> 'f energyRow list list" where
  "runs [] = []"
| "runs (r # rs) = (r # takeWhile (sameGroup r) rs) # runs (dropWhile (sameGroup r) rs)"
  by pat_completeness auto
termination
  by (relation "measure length") (auto simp: less_Suc_eq_le length_dropWhile_le)

text \<open>
  The winner rule: a strictly later reading replaces the current representative, and so
  does a reading at the same instant with a larger row identifier; any other reading
  leaves it.
\<close>

definition better :: "'f energyRow \<Rightarrow> 'f energyRow \<Rightarrow> 'f energyRow" where
  "better cur r =
     (if After (V (lastUpdated r)) (V (lastUpdated cur)) then r
      else if V (lastUpdated r) = V (lastUpdated cur) \<and> stateID r > stateID cur then r
      else cur)"

definition representative :: "'f energyRow list \<Rightarrow> 'f energyRow" where
  "representative g = foldl better (hd g) (tl g)"

text \<open>
  The order the winner rule follows: a reading is not later than another when its instant
  is earlier, or the instants are equal and its row identifier is not larger.
\<close>

definition notLater :: "'f energyRow \<Rightarrow> 'f energyRow \<Rightarrow> bool" where
  "notLater r x =
     (V (lastUpdated r) < V (lastUpdated x)
      \<or> (V (lastUpdated r) = V (lastUpdated x) \<and> stateID r \<le> stateID x))"

text \<open>The mean as \<open>float64\<close> computes it: the sum from the left, divided by the count.\<close>

definition mean :: "'f lib \<Rightarrow> 'f energyRow list \<Rightarrow> 'f" where
  "mean lib g =
     fdiv lib (foldl (fadd lib) (fzero lib) (map (\<lambda>r. V (numericState r)) g))
              (float64_of_int lib (int (length g)))"

definition aggregate :: "'f lib \<Rightarrow> 'f energyRow list \<Rightarrow> 'f energyRow" where
  "aggregate lib g =
     \<lparr>stateID = stateID (representative g), entityID = entityID (hd g),
      state = FormatFloat lib (mean lib g),
      numericState = \<lparr>V = mean lib g, Valid = True\<rparr>,
      meta = meta (representative g),
      lastUpdated = \<lparr>V = V (lastUpdated (representative g)), Valid = True\<rparr>\<rparr>"

text \<open>
  Feeding rows to \<open>Add\<close> one after the other, as a caller does that returns at the
  first error, and flushing at the end; and handing rows to \<open>emit\<close> in the same way.
\<close>

fun AddAll ::
  "'f lib \<Rightarrow> ('f, 's) emitter \<Rightarrow> 'f minuteAverager \<Rightarrow> 'f energyRow list \<Rightarrow> 's
     \<Rightarrow> error option \<times> 'f minuteAverager \<times> 's" where
  "AddAll lib emit m [] s = (None, m, s)"
| "AddAll lib emit m (r # rs) s =
     (case Add lib emit m r s of
        (Some e, m1, s1) \<Rightarrow> (Some e, m1, s1)
      | (None, m1, s1) \<Rightarrow> AddAll lib emit m1 rs s1)"

definition feedFrom ::
  "'f lib \<Rightarrow> ('f, 's) emitter \<Rightarrow> 'f minuteAverager \<Rightarrow> 'f energyRow list \<Rightarrow> 's
     \<Rightarrow> error option \<times> 's" where
  "feedFrom lib emit m rows s =
     (case AddAll lib emit m rows s of
        (Some e, m1, s1) \<Rightarrow> (Some e, s1)
      | (None, m1, s1) \<Rightarrow> (case Flush lib emit m1 s1 of (err, m2, s2) \<Rightarrow> (err, s2)))"

definition feed ::
  "'f lib \<Rightarrow> ('f, 's) emitter \<Rightarrow> 'f energyRow list \<Rightarrow> 's \<Rightarrow> error option \<times> 's" where
  "feed lib emit rows s = feedFrom lib emit (newMinuteAverager lib) rows s"

fun emitAll :: "('f, 's) emitter \<Rightarrow> 'f energyRow list \<Rightarrow> 's \<Rightarrow> error option \<times> 's" where
  "emitAll emit [] s = (None, s)"
| "emitAll emit (r # rs) s =
     (case emit r s of
        (Some e, s1) \<Rightarrow> (Some e, s1)
      | (None, s1) \<Rightarrow> emitAll emit rs s1)"

text \<open>The averager after it has taken in the rows of \<open>g\<close>, a run that is not empty.\<close>

definition groupState :: "'f lib \<Rightarrow> 'f energyRow list \<Rightarrow> 'f minuteAverager" where
  "groupState lib g =
     \<lparr>m_active = True, m_entityID = entityID (hd g),
      m_minute = Truncate (V (lastUpdated (hd g))) Minute,
      m_sum = foldl (fadd lib) (fzero lib) (map (\<lambda>r. V (numericState r)) g),
      m_count = int (length g),
      m_maxTime = V (lastUpdated (representative g)), m_maxTimeValid = True,
      m_stateID = stateID (representative g), m_meta = meta (representative g)\<rparr>"

section \<open>Names for parts of the closures and of the loop\<close>

text \<open>
  The following definitions name pieces of the code above, so that the properties can
  speak about them: the eight arguments that \<open>appendRow\<close> appends for a row, the
  placeholder text of \<open>n\<close> rows when \<open>k\<close> rows are buffered already, and the text of
  the statement for \<open>n\<close> rows.
\<close>

definition rowArgs :: "'f energyRow \<Rightarrow> 'f arg list" where
  "rowArgs row =
     [ArgString (entityID row), ArgString (state row), ArgNullFloat64 (numericState row),
      ArgNullString (Unit (meta row)), ArgNullString (DeviceClass (meta row)),
      ArgNullString (StateClass (meta row)), ArgNullString (FriendlyName (meta row)),
      ArgNullTime (lastUpdated row)]"

primrec placeholders :: "int \<Rightarrow> nat \<Rightarrow> string" where
  "placeholders k 0 = []"
| "placeholders k (Suc n) =
     (if k > 0 then '','' else []) @ CHR 0x0A # ''    (?, ?, ?, ?, ?, ?, ?, ?)''
       @ placeholders (k + 1) n"

definition statement :: "nat \<Rightarrow> string" where
  "statement n = upsertPrefix @ placeholders 0 n @ [CHR 0x0A] @ upsertSuffix"

text \<open>
  What \<open>appendRow\<close> does to the watermarks, and to the whole buffer before it decides
  whether to flush.
\<close>

definition advance :: "(string \<rightharpoonup> Time) \<Rightarrow> 'f energyRow \<Rightarrow> (string \<rightharpoonup> Time)" where
  "advance wm row =
     (if Valid (lastUpdated row)
         \<and> (case wm (entityID row) of None \<Rightarrow> True
             | Some current \<Rightarrow> current < V (lastUpdated row))
      then wm(entityID row \<mapsto> V (lastUpdated row)) else wm)"

definition buffered :: "'f energyRow \<Rightarrow> 'f batch \<Rightarrow> 'f batch" where
  "buffered row b =
     b\<lparr>valueSegments := valueSegments b @ placeholders (rowCount b) 1,
       args := args b @ rowArgs row,
       entityWatermarks := advance (entityWatermarks b) row,
       rowCount := rowCount b + 1\<rparr>"

text \<open>The variables of \<open>transferEnergyData\<close> before its loop.\<close>

definition newBatch :: "(string \<rightharpoonup> Time) \<Rightarrow> 'f batch" where
  "newBatch watermarks =
     \<lparr>args = [], valueSegments = [], rowCount = 0, entityWatermarks = watermarks, executed = []\<rparr>"

text \<open>
  The row that \<open>Flush\<close> builds from an open group, and the test of \<open>Add\<close> for a
  boundary between the open group and a row.
\<close>

definition groupRow :: "'f lib \<Rightarrow> 'f minuteAverager \<Rightarrow> 'f energyRow" where
  "groupRow lib m =
     \<lparr>stateID = m_stateID m, entityID = m_entityID m,
      state = FormatFloat lib (fdiv lib (m_sum m) (float64_of_int lib (m_count m))),
      numericState = \<lparr>V = fdiv lib (m_sum m) (float64_of_int lib (m_count m)), Valid = True\<rparr>,
      meta = m_meta m,
      lastUpdated = \<lparr>V = m_maxTime m, Valid = True\<rparr>\<rparr>"

definition boundary :: "'f minuteAverager \<Rightarrow> 'f energyRow \<Rightarrow> bool" where
  "boundary m row =
     (m_active m \<and> (entityID row \<noteq> m_entityID m
        \<or> Truncate (V (lastUpdated row)) Minute \<noteq> m_minute m))"

text \<open>
  In the loop body: the test that skips a reading, the row built from the scanned
  variables, and the rest of the body once the row is built.
\<close>

definition skipped :: "'f batch \<Rightarrow> string \<Rightarrow> NullTime \<Rightarrow> bool" where
  "skipped b eid lu =
     (Valid lu \<and> (case entityWatermarks b eid of
                     Some watermark \<Rightarrow> \<not> After (V lu) watermark
                   | None \<Rightarrow> False))"

definition builtRow :: "'f lib \<Rightarrow> 'f scanned \<Rightarrow> NullTime \<Rightarrow> energyMetadata \<Rightarrow> 'f energyRow" where
  "builtRow lib r lu md =
     \<lparr>stateID = src_stateID r, entityID = src_entityID r, state = src_state r,
      numericState = parseNumericState lib (src_state r), meta = md, lastUpdated = lu\<rparr>"

text \<open>
  The row that the loop body builds for a scanned row when both conversions succeed.
\<close>

definition rowOf :: "'f lib \<Rightarrow> 'f scanned \<Rightarrow> 'f energyRow option" where
  "rowOf lib r =
     (case floatToNullTime lib (src_lastUpdatedVal r) of
        Inl e \<Rightarrow> None
      | Inr lu \<Rightarrow>
          (case extractEnergyMetadata lib (src_attributesJSON r) of
             Inl e \<Rightarrow> None
           | Inr md \<Rightarrow> Some (builtRow lib r lu md)))"

definition routeRow ::
  "'f lib \<Rightarrow> 'f minuteAverager \<Rightarrow> 'f batch \<Rightarrow> 'f energyRow
     \<Rightarrow> error option \<times> 'f minuteAverager \<times> 'f batch" where
  "routeRow lib m b row =
     (if shouldAggregateRow row then Add lib (appendRow lib) m row b
      else
        (case Flush lib (appendRow lib) m b of
           (Some e, m1, b1) \<Rightarrow> (Some e, m1, b1)
         | (None, m1, b1) \<Rightarrow> let (err, b2) = appendRow lib row b1 in (err, m1, b2)))"

text \<open>
  Two orders on the writer's state: a watermark map is below another one when every
  entry of it has an entry that is not earlier in the other; a buffer has grown when a
  statement was executed or, with as many statements, more rows are buffered.
\<close>

definition wm_le :: "(string \<rightharpoonup> Time) \<Rightarrow> (string \<rightharpoonup> Time) \<Rightarrow> bool" where
  "wm_le wm wm' = (\<forall>e w. wm e = Some w \<longrightarrow> (\<exists>w'. wm' e = Some w' \<and> w \<le> w'))"

definition grown :: "'f batch \<Rightarrow> 'f batch \<Rightarrow> bool" where
  "grown b b' =
     (length (executed b) < length (executed b')
      \<or> (length (executed b) = length (executed b') \<and> rowCount b < rowCount b'))"

text \<open>
  For the second run: a watermark map covers an instant of an entity when the entity's
  watermark is not earlier; the averager holds it when its open group is the entity's
  and the group's latest instant is not earlier.  An averager is well formed when an
  open group has a row and a representative.  The stamp of a cursor item is the entity
  and the instant of its reading, if it has a timestamp.  The readings of a set of
  stamps are accounted for when each is covered by the watermarks or held by the
  averager.
\<close>

definition covered :: "(string \<rightharpoonup> Time) \<Rightarrow> string \<Rightarrow> Time \<Rightarrow> bool" where
  "covered wm e t = (\<exists>w. wm e = Some w \<and> t \<le> w)"

definition held :: "'f minuteAverager \<Rightarrow> string \<Rightarrow> Time \<Rightarrow> bool" where
  "held m e t = (m_active m \<and> m_entityID m = e \<and> t \<le> m_maxTime m)"

definition wellFormed :: "'f minuteAverager \<Rightarrow> bool" where
  "wellFormed m = (m_active m \<longrightarrow> 0 < m_count m \<and> m_maxTimeValid m)"

definition stamp :: "'f lib \<Rightarrow> error + 'f scanned \<Rightarrow> (string \<times> Time) set" where
  "stamp lib item =
     (case item of
        Inl e \<Rightarrow> {}
      | Inr r \<Rightarrow>
          (case floatToNullTime lib (src_lastUpdatedVal r) of
             Inl e \<Rightarrow> {}
           | Inr lu \<Rightarrow> if Valid lu then {(src_entityID r, V lu)} else {}))"

definition accounted :: "'f minuteAverager \<Rightarrow> 'f batch \<Rightarrow> (string \<times> Time) set \<Rightarrow> bool" where
  "accounted m b P =
     (wellFormed m \<and> (\<forall>(e, t)\<in>P. covered (entityWatermarks b) e t \<or> held m e t))"

text \<open>
  The entity and the timestamp of a row, as the table holds them.  A buffer is traced
  to the loaded watermarks when its arguments are those of whole rows, as many as it
  counts, and every watermark is a loaded one or the timestamp of a row of its entity
  that a statement has written or that is buffered.
\<close>

definition pointOf :: "'f energyRow \<Rightarrow> point" where
  "pointOf row = (entityID row, lastUpdated row)"

definition traced :: "(string \<rightharpoonup> Time) \<Rightarrow> 'f batch \<Rightarrow> bool" where
  "traced w0 b =
     (\<exists>rows. args b = concat (map rowArgs rows) \<and> rowCount b = int (length rows)
        \<and> (\<forall>e w. entityWatermarks b e = Some w \<longrightarrow>
              w0 e = Some w
              \<or> (e, \<lparr>V = w, Valid = True\<rparr>) \<in> set (written (executed b)) \<union> pointOf ` set rows))"


section \<open>A sample library for the examples\<close>

text \<open>
  The examples below are evaluated with \<open>sample_lib\<close> for the parameter \<open>lib\<close>.  Its
  numbers are the rationals and a NaN, and its arithmetic is exact: it agrees with
  \<open>float64\<close> wherever the exact result is a \<open>float64\<close>, which is the case for the
  values of the examples.  It has no infinities and no negative zero.
  \<open>sample_ParseFloat\<close> reads a sign, digits and a decimal point, \<open>sample_FormatFloat\<close>
  prints whole numbers, \<open>sample_decode\<close> knows the empty object only, and every
  statement sent to the sample sink succeeds.
\<close>

datatype sample64 = Finite rat | NaN

fun sample_bin :: "(rat \<Rightarrow> rat \<Rightarrow> rat) \<Rightarrow> sample64 \<Rightarrow> sample64 \<Rightarrow> sample64" where
  "sample_bin f (Finite a) (Finite b) = Finite (f a b)"
| "sample_bin f _ _ = NaN"

fun sample_div :: "sample64 \<Rightarrow> sample64 \<Rightarrow> sample64" where
  "sample_div (Finite a) (Finite b) = (if b = 0 then NaN else Finite (a / b))"
| "sample_div _ _ = NaN"

definition trunc :: "rat \<Rightarrow> int" where
  "trunc q = (if q < 0 then - \<lfloor>- q\<rfloor> else \<lfloor>q\<rfloor>)"

fun sample_Modf :: "sample64 \<Rightarrow> sample64 \<times> sample64" where
  "sample_Modf (Finite q) = (Finite (of_int (trunc q)), Finite (q - of_int (trunc q)))"
| "sample_Modf NaN = (NaN, NaN)"

fun sample_int64 :: "sample64 \<Rightarrow> int" where
  "sample_int64 (Finite q) = trunc q"
| "sample_int64 NaN = - (2 ^ 63)"

fun parseDigits :: "string \<Rightarrow> nat \<Rightarrow> nat option" where
  "parseDigits [] acc = Some acc"
| "parseDigits (a # s) acc =
     (let x = (of_char a :: nat)
      in if 48 \<le> x \<and> x \<le> 57 then parseDigits s (acc * 10 + (x - 48)) else None)"

definition sample_ParseFloat :: "string \<Rightarrow> error + sample64" where
  "sample_ParseFloat s =
     (let neg = (take 1 s = ''-'');
          body = (if take 1 s = ''-'' \<or> take 1 s = ''+'' then drop 1 s else s);
          ip = takeWhile (\<lambda>a. a \<noteq> CHR ''.'') body;
          fp = drop 1 (dropWhile (\<lambda>a. a \<noteq> CHR ''.'') body)
      in if ip = [] \<and> fp = [] then Inl (Err ''invalid syntax'')
         else case (parseDigits ip 0, parseDigits fp 0) of
                (Some i, Some f) \<Rightarrow>
                  Inr (Finite ((if neg then - 1 else 1) * (of_nat i + of_nat f / 10 ^ length fp)))
              | _ \<Rightarrow> Inl (Err ''invalid syntax''))"

function decimal :: "nat \<Rightarrow> string" where
  "decimal n = (if n < 10 then [''0123456789'' ! n]
                else decimal (n div 10) @ [''0123456789'' ! (n mod 10)])"
  by pat_completeness auto
termination
  by (relation "measure id") auto

declare decimal.simps [simp del]

fun sample_FormatFloat :: "sample64 \<Rightarrow> string" where
  "sample_FormatFloat (Finite q) =
     (if q = of_int \<lfloor>q\<rfloor>
      then (if q < 0 then ''-'' else []) @ decimal (nat \<bar>\<lfloor>q\<rfloor>\<bar>)
      else ''?'')"
| "sample_FormatFloat NaN = ''NaN''"

definition sample_decode :: "string \<Rightarrow> error + (string \<rightharpoonup> sample64 any)" where
  "sample_decode s = (if s = ''{}'' then Inr Map.empty else Inl (Err ''invalid character''))"

definition sample_pickString :: "sample64 any \<Rightarrow> string option" where
  "sample_pickString v = (case v of AString s \<Rightarrow> Some s | _ \<Rightarrow> None)"

definition sample_lib :: "sample64 lib" where
  "sample_lib = \<lparr>fzero = Finite 0, fadd = sample_bin (+), fmul = sample_bin (*),
     fdiv = sample_div, float64_of_int = (\<lambda>n. Finite (of_int n)),
     int64_of_float = sample_int64, f1e9 = Finite 1000000000,
     Modf = sample_Modf, IsNaN = (\<lambda>x. x = NaN),
     ParseFloat = sample_ParseFloat, FormatFloat = sample_FormatFloat,
     decodeObject = sample_decode, pickString = sample_pickString,
     ExecContext = (\<lambda>before query as. None)\<rparr>"

text \<open>An \<open>emit\<close> that keeps the rows it is given, and a reading with a number and an instant.\<close>

definition collect :: "('f, 'f energyRow list) emitter" where
  "collect row out = (None, out @ [row])"

definition reading :: "int \<Rightarrow> string \<Rightarrow> rat \<Rightarrow> Time \<Rightarrow> sample64 energyRow" where
  "reading i e x t =
     \<lparr>stateID = i, entityID = e, state = [], numericState = \<lparr>V = Finite x, Valid = True\<rparr>,
      meta = energyMetadata_zero, lastUpdated = \<lparr>V = t, Valid = True\<rparr>\<rparr>"

text \<open>
  Scanned rows and rows for the examples: a scanned row from its parts, \<open>n\<close> copies of
  one row, and three readings of one entity within one minute, five seconds apart, of
  which the second has no number.
\<close>

definition scan :: "int \<Rightarrow> string \<Rightarrow> string \<Rightarrow> sample64 Null \<Rightarrow> string \<Rightarrow> sample64 scanned" where
  "scan i e st ts js =
     \<lparr>src_stateID = i, src_entityID = e, src_state = st, src_lastUpdatedVal = ts,
      src_attributesJSON = js\<rparr>"

definition sample_rows :: "nat \<Rightarrow> sample64 energyRow list" where
  "sample_rows n = replicate n (reading 1 ''sensor.plug_power'' 5 5000000000)"

definition sample_a :: "sample64 scanned" where
  "sample_a = scan 1 ''sensor.plug_voltage'' ''2'' \<lparr>V = Finite 1700000005, Valid = True\<rparr> ''''"

definition sample_b :: "sample64 scanned" where
  "sample_b = scan 2 ''sensor.plug_voltage'' ''unavailable'' \<lparr>V = Finite 1700000010, Valid = True\<rparr> ''{}''"

definition sample_c :: "sample64 scanned" where
  "sample_c = scan 3 ''sensor.plug_voltage'' ''4'' \<lparr>V = Finite 1700000015, Valid = True\<rparr> ''''"

text \<open>A reading of an entity that is not averaged.\<close>

definition sample_e :: "sample64 scanned" where
  "sample_e = scan 5 ''sensor.plug_power'' ''12.5'' \<lparr>V = Finite 1700000020, Valid = True\<rparr> ''''"


text \<open>
  A reading whose \<open>last_updated_ts\<close> is \<open>NULL\<close>, and a reading a quarter of a
  second after a whole second.
\<close>

definition sample_null :: "sample64 scanned" where
  "sample_null = scan 4 ''switch.plug'' ''on'' \<lparr>V = Finite 0, Valid = False\<rparr> ''''"

definition sample_f :: "sample64 scanned" where
  "sample_f = scan 6 ''sensor.plug_power'' ''5'' \<lparr>V = Finite (6800000021 / 4), Valid = True\<rparr> ''''"

text \<open>
  A column that holds whole seconds, the nearest one to the instant; a table with an
  earlier row of the voltage sensor and a row without timestamp; and the run over the
  three readings with the watermarks loaded from that table.
\<close>

definition sample_DATETIME :: "Time \<Rightarrow> Time" where
  "sample_DATETIME t = (t + 500000000) div 1000000000 * 1000000000"

definition sample_table :: "point list" where
  "sample_table = [(''sensor.plug_voltage'', \<lparr>V = 63835596800000000000, Valid = True\<rparr>),
                   (''switch.plug'', NullTime_zero)]"

definition first_run :: "error option \<times> sample64 minuteAverager \<times> sample64 batch" where
  "first_run = transferEnergyData sample_lib (loadedWatermarks sample_table)
     [Inr sample_a, Inr sample_b, Inr sample_c] None"

section \<open>Properties\<close>

subsection \<open>The minute averager\<close>

lemma reset_eq: "reset lib m = newMinuteAverager lib"
  by (simp add: reset_def newMinuteAverager_def)

lemma newMinuteAverager_idle: "\<not> m_active (newMinuteAverager lib)"
  by (simp add: newMinuteAverager_def)

lemma representative_single: "representative [r] = r"
  by (simp add: representative_def)

lemma representative_snoc: "g \<noteq> [] \<Longrightarrow> representative (g @ [r]) = better (representative g) r"
  by (cases g) (simp_all add: representative_def)

lemma Add_idle: "\<not> m_active m \<Longrightarrow> Add lib emit m r s = (None, groupState lib [r], s)"
  by (simp add: Add_def groupState_def representative_single Let_def)

lemma Flush_idle: "\<not> m_active m \<Longrightarrow> Flush lib emit m s = (None, m, s)"
  by (simp add: Flush_def)

lemma Flush_group:
  "g \<noteq> [] \<Longrightarrow> Flush lib emit (groupState lib g) s =
     (case emit (aggregate lib g) s of (err, s1) \<Rightarrow> (err, newMinuteAverager lib, s1))"
  by (simp add: Flush_def groupState_def aggregate_def mean_def reset_eq Let_def)

lemma Add_same:
  "g \<noteq> [] \<Longrightarrow> sameGroup (hd g) r \<Longrightarrow>
   Add lib emit (groupState lib g) r s = (None, groupState lib (g @ [r]), s)"
  by (auto simp add: Add_def groupState_def representative_snoc better_def sameGroup_def Let_def)

lemma Add_other:
  assumes g: "g \<noteq> []" and ns: "\<not> sameGroup (hd g) r"
  shows "Add lib emit (groupState lib g) r s =
     (case emit (aggregate lib g) s of
        (Some e, s1) \<Rightarrow> (Some e, newMinuteAverager lib, s1)
      | (None, s1) \<Rightarrow> (None, groupState lib [r], s1))"
proof -
  have b: "m_active (groupState lib g) \<and> (entityID r \<noteq> m_entityID (groupState lib g)
      \<or> Truncate (V (lastUpdated r)) Minute \<noteq> m_minute (groupState lib g))"
    using ns by (auto simp: groupState_def sameGroup_def)
  show ?thesis
  proof (cases "emit (aggregate lib g) s")
    case (Pair err s1)
    show ?thesis
    proof (cases err)
      case None
      have "Add lib emit (groupState lib g) r s = Add lib emit (newMinuteAverager lib) r s1"
        using b Pair None
        by (simp add: Add_def Let_def Flush_group[OF g] newMinuteAverager_def)
      then show ?thesis
        using Pair None by (simp add: Add_idle[OF newMinuteAverager_idle])
    next
      case (Some e)
      then show ?thesis
        using b Pair by (simp add: Add_def Let_def Flush_group[OF g])
    qed
  qed
qed

lemma concat_runs: "concat (runs rows) = rows"
  by (induction rows rule: runs.induct) simp_all

lemma runs_groups: "g \<in> set (runs rows) \<Longrightarrow> g \<noteq> [] \<and> (\<forall>r\<in>set g. sameGroup (hd g) r)"
proof (induction rows arbitrary: g rule: runs.induct)
  case 1
  then show ?case by simp
next
  case (2 r rs)
  from "2.prems" have "g = r # takeWhile (sameGroup r) rs \<or> g \<in> set (runs (dropWhile (sameGroup r) rs))"
    by simp
  then show ?case
  proof
    assume g: "g = r # takeWhile (sameGroup r) rs"
    have "sameGroup r r" by (simp add: sameGroup_def)
    moreover have "\<forall>x\<in>set (takeWhile (sameGroup r) rs). sameGroup r x"
      by (auto dest: set_takeWhileD)
    ultimately show ?thesis using g by simp
  next
    assume "g \<in> set (runs (dropWhile (sameGroup r) rs))"
    then show ?thesis by (rule "2.IH")
  qed
qed

lemma runs_hd: "runs rows = g # gs \<Longrightarrow> g \<noteq> [] \<and> hd g = hd rows"
  by (cases rows) auto

lemma runs_maximal:
  "runs rows = pre @ g1 # g2 # post \<Longrightarrow> \<not> sameGroup (hd g1) (hd g2)"
proof (induction rows arbitrary: pre rule: runs.induct)
  case 1
  then show ?case by simp
next
  case (2 r rs)
  show ?case
  proof (cases pre)
    case Nil
    with "2.prems" have g1: "g1 = r # takeWhile (sameGroup r) rs"
      and rest: "runs (dropWhile (sameGroup r) rs) = g2 # post" by simp_all
    have ne: "dropWhile (sameGroup r) rs \<noteq> []"
    proof
      assume "dropWhile (sameGroup r) rs = []"
      then have "runs (dropWhile (sameGroup r) rs) = []" by (simp only: runs.simps)
      with rest show False by simp
    qed
    from runs_hd[OF rest] have "hd g2 = hd (dropWhile (sameGroup r) rs)" by simp
    with ne g1 show ?thesis using hd_dropWhile[OF ne] by simp
  next
    case (Cons p pre')
    with "2.prems" have "runs (dropWhile (sameGroup r) rs) = pre' @ g1 # g2 # post" by simp
    then show ?thesis by (rule "2.IH")
  qed
qed

lemma feedFrom_group:
  "g \<noteq> [] \<Longrightarrow>
   feedFrom lib emit (groupState lib g) rows s =
     emitAll emit (map (aggregate lib)
       ((g @ takeWhile (sameGroup (hd g)) rows) # runs (dropWhile (sameGroup (hd g)) rows))) s"
proof (induction rows arbitrary: g s)
  case Nil
  then show ?case
    by (simp add: feedFrom_def Flush_group split: prod.splits option.splits)
next
  case (Cons r rows)
  show ?case
  proof (cases "sameGroup (hd g) r")
    case True
    have "feedFrom lib emit (groupState lib g) (r # rows) s
        = feedFrom lib emit (groupState lib (g @ [r])) rows s"
      using Cons.prems True by (simp add: feedFrom_def Add_same)
    also have "\<dots> = emitAll emit (map (aggregate lib)
       (((g @ [r]) @ takeWhile (sameGroup (hd (g @ [r]))) rows)
         # runs (dropWhile (sameGroup (hd (g @ [r]))) rows))) s"
      by (rule Cons.IH) simp
    finally show ?thesis using Cons.prems True by simp
  next
    case False
    show ?thesis
    proof (cases "emit (aggregate lib g) s")
      case (Pair err s1)
      show ?thesis
      proof (cases err)
        case None
        have "feedFrom lib emit (groupState lib g) (r # rows) s
            = feedFrom lib emit (groupState lib [r]) rows s1"
          using Cons.prems False Pair None by (simp add: feedFrom_def Add_other)
        also have "\<dots> = emitAll emit (map (aggregate lib)
           (([r] @ takeWhile (sameGroup (hd [r])) rows)
             # runs (dropWhile (sameGroup (hd [r])) rows))) s1"
          by (rule Cons.IH) simp
        finally show ?thesis using False Pair None by simp
      next
        case (Some e)
        then show ?thesis
          using Cons.prems False Pair by (simp add: feedFrom_def Add_other)
      qed
    qed
  qed
qed

lemma feed_runs: "feed lib emit rows s = emitAll emit (map (aggregate lib) (runs rows)) s"
proof (cases rows)
  case Nil
  then show ?thesis
    by (simp add: feed_def feedFrom_def Flush_def newMinuteAverager_def)
next
  case (Cons r rs)
  have "feed lib emit rows s = feedFrom lib emit (groupState lib [r]) rs s"
    using Cons by (simp add: feed_def feedFrom_def Add_idle[OF newMinuteAverager_idle])
  also have "\<dots> = emitAll emit (map (aggregate lib)
       (([r] @ takeWhile (sameGroup (hd [r])) rs) # runs (dropWhile (sameGroup (hd [r])) rs))) s"
    by (rule feedFrom_group) simp
  finally show ?thesis using Cons by simp
qed

text \<open>
  Claim C1.  Rows fed to \<open>Add\<close> and flushed at the end reach \<open>emit\<close> as one row for
  each maximal run of adjacent rows with the same entity and minute, in order and up to
  the first error of \<open>emit\<close>.  The row of a run has the mean of the run as its number
  (the sum of the values divided by their count), that mean formatted as its state, and
  the identifier, the metadata and the instant of the run's representative.  The runs
  partition the rows, each run shares one entity and minute, and adjacent runs differ.
\<close>

theorem averager_one_row_per_run:
  "feed lib emit rows s = emitAll emit (map (aggregate lib) (runs rows)) s
   \<and> concat (runs rows) = rows
   \<and> (\<forall>g\<in>set (runs rows). g \<noteq> [] \<and> (\<forall>r\<in>set g. sameGroup (hd g) r))
   \<and> (\<forall>pre g1 g2 post. runs rows = pre @ g1 # g2 # post \<longrightarrow> \<not> sameGroup (hd g1) (hd g2))"
proof (intro conjI ballI allI impI)
  show "feed lib emit rows s = emitAll emit (map (aggregate lib) (runs rows)) s"
    by (rule feed_runs)
  show "concat (runs rows) = rows"
    by (rule concat_runs)
  show "g \<noteq> []" if "g \<in> set (runs rows)" for g
    using runs_groups[OF that] by simp
  show "sameGroup (hd g) r" if "g \<in> set (runs rows)" "r \<in> set g" for g r
    using runs_groups[OF that(1)] that(2) by simp
  show "\<not> sameGroup (hd g1) (hd g2)" if "runs rows = pre @ g1 # g2 # post" for pre g1 g2 post
    using that by (rule runs_maximal)
qed

text \<open>
  The scenario of the specification: 2 and 4 in one minute, 6 in the next one.
\<close>

theorem averager_one_row_per_run_witness:
  "feed sample_lib collect
     [reading 1 ''sensor.plug_voltage'' 2 5000000000,
      reading 2 ''sensor.plug_voltage'' 4 40000000000,
      reading 3 ''sensor.plug_voltage'' 6 70000000000] []
   = (None,
      [\<lparr>stateID = 2, entityID = ''sensor.plug_voltage'', state = ''3'',
         numericState = \<lparr>V = Finite 3, Valid = True\<rparr>, meta = energyMetadata_zero,
         lastUpdated = \<lparr>V = 40000000000, Valid = True\<rparr>\<rparr>,
       \<lparr>stateID = 3, entityID = ''sensor.plug_voltage'', state = ''6'',
         numericState = \<lparr>V = Finite 6, Valid = True\<rparr>, meta = energyMetadata_zero,
         lastUpdated = \<lparr>V = 70000000000, Valid = True\<rparr>\<rparr>])
   \<and> runs [reading 1 ''sensor.plug_voltage'' 2 5000000000,
      reading 2 ''sensor.plug_voltage'' 4 40000000000,
      reading 3 ''sensor.plug_voltage'' 6 70000000000]
     = [[reading 1 ''sensor.plug_voltage'' 2 5000000000,
         reading 2 ''sensor.plug_voltage'' 4 40000000000],
        [reading 3 ''sensor.plug_voltage'' 6 70000000000]]"
proof -
  have r: "runs [reading 1 ''sensor.plug_voltage'' 2 5000000000,
      reading 2 ''sensor.plug_voltage'' 4 40000000000,
      reading 3 ''sensor.plug_voltage'' 6 70000000000]
     = [[reading 1 ''sensor.plug_voltage'' 2 5000000000,
         reading 2 ''sensor.plug_voltage'' 4 40000000000],
        [reading 3 ''sensor.plug_voltage'' 6 70000000000]]"
    by (simp add: reading_def sameGroup_def Truncate_def Minute_def)
  show ?thesis
    using averager_one_row_per_run [of sample_lib collect
     "[reading 1 ''sensor.plug_voltage'' 2 5000000000,
       reading 2 ''sensor.plug_voltage'' 4 40000000000,
       reading 3 ''sensor.plug_voltage'' 6 70000000000]" "[]", THEN conjunct1]
    unfolding r
    by (simp add: collect_def reading_def aggregate_def mean_def representative_def better_def
      After_def sample_lib_def decimal.simps)
qed

lemma Add_in_group:
  assumes "m_active m" "m_maxTimeValid m" "entityID row = m_entityID m"
    "Truncate (V (lastUpdated row)) Minute = m_minute m"
  shows "Add lib emit m row s =
     (None,
      (if After (V (lastUpdated row)) (m_maxTime m)
          \<or> (V (lastUpdated row) = m_maxTime m \<and> stateID row > m_stateID m)
       then m\<lparr>m_sum := fadd lib (m_sum m) (V (numericState row)), m_count := m_count m + 1,
               m_maxTime := V (lastUpdated row), m_maxTimeValid := True,
               m_stateID := stateID row, m_meta := meta row\<rparr>
       else m\<lparr>m_sum := fadd lib (m_sum m) (V (numericState row)), m_count := m_count m + 1\<rparr>),
      s)"
  using assms by (simp add: Add_def Let_def)

lemma Flush_open:
  assumes "m_active m" "m_maxTimeValid m" "m_count m \<noteq> 0"
  shows "Flush lib emit m s =
     (case emit \<lparr>stateID = m_stateID m, entityID = m_entityID m,
                  state = FormatFloat lib (fdiv lib (m_sum m) (float64_of_int lib (m_count m))),
                  numericState = \<lparr>V = fdiv lib (m_sum m) (float64_of_int lib (m_count m)),
                                   Valid = True\<rparr>,
                  meta = m_meta m,
                  lastUpdated = \<lparr>V = m_maxTime m, Valid = True\<rparr>\<rparr> s of
        (err, s') \<Rightarrow> (err, newMinuteAverager lib, s'))"
  using assms by (simp add: Flush_def Let_def reset_eq)

text \<open>
  The winner rule picks a greatest reading of the group in the order \<open>notLater\<close>, and
  a run of readings of one group leaves the averager in the state of that group.
\<close>

lemma notLater_refl: "notLater r r"
  by (simp add: notLater_def)

lemma notLater_trans: "notLater a b \<Longrightarrow> notLater b c \<Longrightarrow> notLater a c"
  by (auto simp: notLater_def)

lemma better_cases: "better c r = c \<or> better c r = r"
  by (simp add: better_def)

lemma notLater_better_cur: "notLater c (better c r)"
  by (auto simp: notLater_def better_def After_def)

lemma notLater_better_new: "notLater r (better c r)"
  by (auto simp: notLater_def better_def After_def)

lemma foldl_better:
  "foldl better c rs \<in> set (c # rs) \<and> (\<forall>r\<in>set (c # rs). notLater r (foldl better c rs))"
proof (induction rs arbitrary: c)
  case Nil
  then show ?case by (simp add: notLater_refl)
next
  case (Cons x rs)
  let ?res = "foldl better (better c x) rs"
  from Cons.IH[of "better c x"] have mem: "?res \<in> set (better c x # rs)"
    and top: "\<forall>r\<in>set (better c x # rs). notLater r ?res" by simp_all
  from top have b: "notLater (better c x) ?res" by simp
  have "notLater c ?res" "notLater x ?res"
    using notLater_better_cur[of c x] notLater_better_new[of x c] b
    by (auto intro: notLater_trans)
  moreover have "?res \<in> set (c # x # rs)"
    using mem better_cases[of c x] by auto
  ultimately show ?case using top by simp
qed

lemma representative_latest:
  "g \<noteq> [] \<Longrightarrow> representative g \<in> set g \<and> (\<forall>r\<in>set g. notLater r (representative g))"
  using foldl_better[of "hd g" "tl g"] by (simp add: representative_def)

lemma AddAll_group:
  "g \<noteq> [] \<Longrightarrow> \<forall>r\<in>set rs. sameGroup (hd g) r \<Longrightarrow>
   AddAll lib emit (groupState lib g) rs s = (None, groupState lib (g @ rs), s)"
proof (induction rs arbitrary: g)
  case Nil
  then show ?case by simp
next
  case (Cons r rs)
  have "AddAll lib emit (groupState lib g) (r # rs) s
      = AddAll lib emit (groupState lib (g @ [r])) rs s"
    using Cons.prems by (simp add: Add_same)
  also have "\<dots> = (None, groupState lib ((g @ [r]) @ rs), s)"
    using Cons.prems by (intro Cons.IH) simp_all
  finally show ?case by simp
qed

lemma AddAll_run:
  assumes "g \<noteq> []" "\<forall>r\<in>set g. sameGroup (hd g) r" "\<not> m_active m"
  shows "AddAll lib emit m g s = (None, groupState lib g, s)"
proof -
  from assms(1) obtain r rs where g: "g = r # rs" by (cases g) auto
  with assms(2) have "\<forall>x\<in>set rs. sameGroup (hd [r]) x" by simp
  from AddAll_group[OF _ this, of lib emit s] show ?thesis
    unfolding g using assms(3) by (simp add: Add_idle)
qed

text \<open>
  Claim C3.  When \<open>Add\<close> takes a reading into the open group, a strictly later reading
  becomes the representative, a reading at the same instant becomes it when its row
  identifier is larger, and any other reading leaves the representative as it is.
  \<open>Flush\<close> puts the representative's identifier, metadata and instant on the row it
  emits.  Over a whole group fed to an idle averager, the representative is a reading of
  the group that no reading of the group exceeds: none has a later instant, and none at
  the same instant has a larger row identifier.
\<close>

theorem representative_rule:
  "(m_active m \<and> m_maxTimeValid m \<and> entityID row = m_entityID m
      \<and> Truncate (V (lastUpdated row)) Minute = m_minute m \<longrightarrow>
    (case Add lib emit m row s of
       (err, m', s') \<Rightarrow>
         err = None \<and> s' = s \<and> m_active m' \<and> m_maxTimeValid m'
         \<and> (m_maxTime m', m_stateID m', m_meta m') =
             (if After (V (lastUpdated row)) (m_maxTime m)
              then (V (lastUpdated row), stateID row, meta row)
              else if V (lastUpdated row) = m_maxTime m \<and> stateID row > m_stateID m
              then (V (lastUpdated row), stateID row, meta row)
              else (m_maxTime m, m_stateID m, m_meta m))))
   \<and> (m_active m \<and> m_maxTimeValid m \<and> m_count m \<noteq> 0 \<longrightarrow>
        Flush lib emit m s =
          (case emit \<lparr>stateID = m_stateID m, entityID = m_entityID m,
                  state = FormatFloat lib (fdiv lib (m_sum m) (float64_of_int lib (m_count m))),
                  numericState = \<lparr>V = fdiv lib (m_sum m) (float64_of_int lib (m_count m)),
                                   Valid = True\<rparr>,
                  meta = m_meta m,
                  lastUpdated = \<lparr>V = m_maxTime m, Valid = True\<rparr>\<rparr> s of
             (err, s') \<Rightarrow> (err, newMinuteAverager lib, s')))
   \<and> (g \<noteq> [] \<and> (\<forall>r\<in>set g. sameGroup (hd g) r) \<and> \<not> m_active m0 \<longrightarrow>
        (case AddAll lib emit m0 g s of
           (err, m', s') \<Rightarrow>
             err = None \<and> s' = s
             \<and> (\<exists>rep\<in>set g.
                   m_stateID m' = stateID rep \<and> m_meta m' = meta rep
                   \<and> m_maxTime m' = V (lastUpdated rep)
                   \<and> (\<forall>r\<in>set g.
                         V (lastUpdated r) < V (lastUpdated rep)
                         \<or> (V (lastUpdated r) = V (lastUpdated rep)
                             \<and> stateID r \<le> stateID rep)))))"
proof (intro conjI impI)
  assume a: "m_active m \<and> m_maxTimeValid m \<and> entityID row = m_entityID m
      \<and> Truncate (V (lastUpdated row)) Minute = m_minute m"
  then show "case Add lib emit m row s of
       (err, m', s') \<Rightarrow>
         err = None \<and> s' = s \<and> m_active m' \<and> m_maxTimeValid m'
         \<and> (m_maxTime m', m_stateID m', m_meta m') =
             (if After (V (lastUpdated row)) (m_maxTime m)
              then (V (lastUpdated row), stateID row, meta row)
              else if V (lastUpdated row) = m_maxTime m \<and> stateID row > m_stateID m
              then (V (lastUpdated row), stateID row, meta row)
              else (m_maxTime m, m_stateID m, m_meta m))"
    by (simp add: Add_in_group)
next
  assume "m_active m \<and> m_maxTimeValid m \<and> m_count m \<noteq> 0"
  then show "Flush lib emit m s =
          (case emit \<lparr>stateID = m_stateID m, entityID = m_entityID m,
                  state = FormatFloat lib (fdiv lib (m_sum m) (float64_of_int lib (m_count m))),
                  numericState = \<lparr>V = fdiv lib (m_sum m) (float64_of_int lib (m_count m)),
                                   Valid = True\<rparr>,
                  meta = m_meta m,
                  lastUpdated = \<lparr>V = m_maxTime m, Valid = True\<rparr>\<rparr> s of
             (err, s') \<Rightarrow> (err, newMinuteAverager lib, s'))"
    by (simp add: Flush_open)
next
  assume h: "g \<noteq> [] \<and> (\<forall>r\<in>set g. sameGroup (hd g) r) \<and> \<not> m_active m0"
  then have run: "AddAll lib emit m0 g s = (None, groupState lib g, s)"
    by (intro AddAll_run) simp_all
  from h representative_latest[of g] have rep: "representative g \<in> set g"
    "\<forall>r\<in>set g. notLater r (representative g)" by simp_all
  have "\<exists>rep\<in>set g.
          m_stateID (groupState lib g) = stateID rep \<and> m_meta (groupState lib g) = meta rep
          \<and> m_maxTime (groupState lib g) = V (lastUpdated rep)
          \<and> (\<forall>r\<in>set g.
                V (lastUpdated r) < V (lastUpdated rep)
                \<or> (V (lastUpdated r) = V (lastUpdated rep) \<and> stateID r \<le> stateID rep))"
    using rep by (intro bexI[of _ "representative g"]) (simp_all add: groupState_def notLater_def)
  then show "case AddAll lib emit m0 g s of
           (err, m', s') \<Rightarrow>
             err = None \<and> s' = s
             \<and> (\<exists>rep\<in>set g.
                   m_stateID m' = stateID rep \<and> m_meta m' = meta rep
                   \<and> m_maxTime m' = V (lastUpdated rep)
                   \<and> (\<forall>r\<in>set g.
                         V (lastUpdated r) < V (lastUpdated rep)
                         \<or> (V (lastUpdated r) = V (lastUpdated rep)
                             \<and> stateID r \<le> stateID rep)))"
    unfolding run by simp
qed

text \<open>
  A tie on the instant: the reading with identifier 9 replaces the representative with
  identifier 7, the reading with identifier 3 does not; of four readings of one minute,
  three of them at the latest instant, the one with identifier 9 is the representative.
\<close>

theorem representative_rule_witness:
  "m_active (groupState sample_lib [reading 7 ''sensor.plug_voltage'' 2 5000000000])
   \<and> m_maxTimeValid (groupState sample_lib [reading 7 ''sensor.plug_voltage'' 2 5000000000])
   \<and> m_count (groupState sample_lib [reading 7 ''sensor.plug_voltage'' 2 5000000000]) \<noteq> 0
   \<and> Add sample_lib collect (groupState sample_lib [reading 7 ''sensor.plug_voltage'' 2 5000000000])
        (reading 9 ''sensor.plug_voltage'' 4 5000000000) []
      = (None,
         \<lparr>m_active = True, m_entityID = ''sensor.plug_voltage'', m_minute = 0,
          m_sum = Finite 6, m_count = 2, m_maxTime = 5000000000, m_maxTimeValid = True,
          m_stateID = 9, m_meta = energyMetadata_zero\<rparr>, [])
   \<and> Add sample_lib collect (groupState sample_lib [reading 7 ''sensor.plug_voltage'' 2 5000000000])
        (reading 3 ''sensor.plug_voltage'' 4 5000000000) []
      = (None,
         \<lparr>m_active = True, m_entityID = ''sensor.plug_voltage'', m_minute = 0,
          m_sum = Finite 6, m_count = 2, m_maxTime = 5000000000, m_maxTimeValid = True,
          m_stateID = 7, m_meta = energyMetadata_zero\<rparr>, [])
   \<and> Flush sample_lib collect (groupState sample_lib [reading 7 ''sensor.plug_voltage'' 2 5000000000]) []
      = (None, newMinuteAverager sample_lib,
         [\<lparr>stateID = 7, entityID = ''sensor.plug_voltage'', state = ''2'',
           numericState = \<lparr>V = Finite 2, Valid = True\<rparr>, meta = energyMetadata_zero,
           lastUpdated = \<lparr>V = 5000000000, Valid = True\<rparr>\<rparr>])
   \<and> AddAll sample_lib collect (newMinuteAverager sample_lib)
        [reading 7 ''sensor.plug_voltage'' 2 5000000000,
         reading 9 ''sensor.plug_voltage'' 4 5000000000,
         reading 3 ''sensor.plug_voltage'' 6 5000000000,
         reading 8 ''sensor.plug_voltage'' 8 4000000000] []
      = (None,
         \<lparr>m_active = True, m_entityID = ''sensor.plug_voltage'', m_minute = 0,
          m_sum = Finite 20, m_count = 4, m_maxTime = 5000000000, m_maxTimeValid = True,
          m_stateID = 9, m_meta = energyMetadata_zero\<rparr>, [])"
proof -
  let ?g = "[reading 7 ''sensor.plug_voltage'' 2 5000000000,
         reading 9 ''sensor.plug_voltage'' 4 5000000000,
         reading 3 ''sensor.plug_voltage'' 6 5000000000,
         reading 8 ''sensor.plug_voltage'' 8 4000000000]"
  have first: "m_active (groupState sample_lib [reading 7 ''sensor.plug_voltage'' 2 5000000000])
   \<and> m_maxTimeValid (groupState sample_lib [reading 7 ''sensor.plug_voltage'' 2 5000000000])
   \<and> m_count (groupState sample_lib [reading 7 ''sensor.plug_voltage'' 2 5000000000]) \<noteq> 0
   \<and> Add sample_lib collect (groupState sample_lib [reading 7 ''sensor.plug_voltage'' 2 5000000000])
        (reading 9 ''sensor.plug_voltage'' 4 5000000000) []
      = (None,
         \<lparr>m_active = True, m_entityID = ''sensor.plug_voltage'', m_minute = 0,
          m_sum = Finite 6, m_count = 2, m_maxTime = 5000000000, m_maxTimeValid = True,
          m_stateID = 9, m_meta = energyMetadata_zero\<rparr>, [])
   \<and> Add sample_lib collect (groupState sample_lib [reading 7 ''sensor.plug_voltage'' 2 5000000000])
        (reading 3 ''sensor.plug_voltage'' 4 5000000000) []
      = (None,
         \<lparr>m_active = True, m_entityID = ''sensor.plug_voltage'', m_minute = 0,
          m_sum = Finite 6, m_count = 2, m_maxTime = 5000000000, m_maxTimeValid = True,
          m_stateID = 7, m_meta = energyMetadata_zero\<rparr>, [])
   \<and> Flush sample_lib collect (groupState sample_lib [reading 7 ''sensor.plug_voltage'' 2 5000000000]) []
      = (None, newMinuteAverager sample_lib,
         [\<lparr>stateID = 7, entityID = ''sensor.plug_voltage'', state = ''2'',
           numericState = \<lparr>V = Finite 2, Valid = True\<rparr>, meta = energyMetadata_zero,
           lastUpdated = \<lparr>V = 5000000000, Valid = True\<rparr>\<rparr>])"
    using representative_rule [where m = "groupState sample_lib [reading 7 ''sensor.plug_voltage'' 2 5000000000]"
        and row = "reading 9 ''sensor.plug_voltage'' 4 5000000000" and lib = sample_lib
        and emit = collect and s = "[]", THEN conjunct1]
      representative_rule [where m = "groupState sample_lib [reading 7 ''sensor.plug_voltage'' 2 5000000000]"
        and row = "reading 3 ''sensor.plug_voltage'' 4 5000000000" and lib = sample_lib
        and emit = collect and s = "[]", THEN conjunct1]
      representative_rule [where m = "groupState sample_lib [reading 7 ''sensor.plug_voltage'' 2 5000000000]"
        and lib = sample_lib and emit = collect and s = "[]", THEN conjunct2, THEN conjunct1]
    by (simp add: groupState_def reading_def representative_def Truncate_def Minute_def After_def
        collect_def sample_lib_def Add_def Let_def decimal.simps)
  have h: "?g \<noteq> [] \<and> (\<forall>r\<in>set ?g. sameGroup (hd ?g) r)
      \<and> \<not> m_active (newMinuteAverager sample_lib)"
    by (simp add: sameGroup_def reading_def Truncate_def Minute_def newMinuteAverager_def)
  note run = representative_rule [where lib = sample_lib and emit = collect and g = ?g
      and ?m0.0 = "newMinuteAverager sample_lib" and s = "[]",
      THEN conjunct2, THEN conjunct2, THEN mp, OF h]
  have all: "AddAll sample_lib collect (newMinuteAverager sample_lib) ?g []
      = (None,
         \<lparr>m_active = True, m_entityID = ''sensor.plug_voltage'', m_minute = 0,
          m_sum = Finite 20, m_count = 4, m_maxTime = 5000000000, m_maxTimeValid = True,
          m_stateID = 9, m_meta = energyMetadata_zero\<rparr>, [])"
    using run by code_simp
  from first all show ?thesis by simp
qed

subsection \<open>The batch writer and the watermarks\<close>

lemma appendRow_buffered:
  "appendRow lib row b =
     (if rowCount b + 1 \<ge> energyBatchSize then flushBatch lib (buffered row b)
      else (None, buffered row b))"
  by (cases "entityWatermarks b (entityID row)")
     (simp_all add: appendRow_def buffered_def advance_def rowArgs_def After_def Let_def)

lemma flushBatch_watermarks: "entityWatermarks (snd (flushBatch lib b)) = entityWatermarks b"
  by (simp add: flushBatch_def Let_def split: option.splits)

lemma appendRow_watermarks:
  "entityWatermarks (snd (appendRow lib row b)) = advance (entityWatermarks b) row"
  by (simp add: appendRow_buffered flushBatch_watermarks) (simp add: buffered_def)

lemma emitAll_append:
  "emitAll emit (xs @ ys) s =
     (case emitAll emit xs s of
        (Some e, s1) \<Rightarrow> (Some e, s1)
      | (None, s1) \<Rightarrow> emitAll emit ys s1)"
  by (induction xs arbitrary: s) (auto split: prod.splits option.splits)

lemma placeholders_add:
  "placeholders k (m + n) = placeholders k m @ placeholders (k + int m) n"
  by (induction m arbitrary: k) (simp_all add: add.commute add.left_commute)

lemma buffer_rows:
  "0 \<le> rowCount b \<Longrightarrow> rowCount b + int (length rows) < energyBatchSize \<Longrightarrow>
   emitAll (appendRow lib) rows b =
     (None, b\<lparr>valueSegments := valueSegments b @ placeholders (rowCount b) (length rows),
              args := args b @ concat (map rowArgs rows),
              entityWatermarks := foldl advance (entityWatermarks b) rows,
              rowCount := rowCount b + int (length rows)\<rparr>)"
proof (induction rows arbitrary: b)
  case Nil
  then show ?case by simp
next
  case (Cons r rows)
  have step: "appendRow lib r b = (None, buffered r b)"
    using Cons.prems by (simp add: appendRow_buffered)
  have "emitAll (appendRow lib) rows (buffered r b) =
     (None, (buffered r b)\<lparr>valueSegments := valueSegments (buffered r b)
                @ placeholders (rowCount (buffered r b)) (length rows),
              args := args (buffered r b) @ concat (map rowArgs rows),
              entityWatermarks := foldl advance (entityWatermarks (buffered r b)) rows,
              rowCount := rowCount (buffered r b) + int (length rows)\<rparr>)"
    by (rule Cons.IH) (use Cons.prems in \<open>simp_all add: buffered_def\<close>)
  then show ?case
    using step by (simp add: buffered_def)
qed

lemma flushBatch_nonempty:
  "rowCount b \<noteq> 0 \<Longrightarrow>
   flushBatch lib b =
     (case ExecContext lib (executed b)
             (upsertPrefix @ valueSegments b @ [CHR 0x0A] @ upsertSuffix) (args b) of
        Some e \<Rightarrow>
          (Some (Wrap ''upsert mysql rows'' e),
           b\<lparr>executed := executed b
                 @ [(upsertPrefix @ valueSegments b @ [CHR 0x0A] @ upsertSuffix, args b)]\<rparr>)
      | None \<Rightarrow>
          (None,
           b\<lparr>executed := executed b
                 @ [(upsertPrefix @ valueSegments b @ [CHR 0x0A] @ upsertSuffix, args b)],
             valueSegments := [], args := [], rowCount := 0\<rparr>))"
  by (simp add: flushBatch_def Let_def split: option.splits)

lemma flush_after_rows:
  assumes e: "rowCount b = 0" "args b = []" "valueSegments b = []"
    and n: "0 < length rows" "int (length rows) \<le> energyBatchSize"
  shows "case flushBatch lib (b\<lparr>valueSegments := placeholders 0 (length rows),
              args := concat (map rowArgs rows),
              entityWatermarks := foldl advance (entityWatermarks b) rows,
              rowCount := int (length rows)\<rparr>) of
           (err, b') \<Rightarrow>
             executed b' = executed b @ [(statement (length rows), concat (map rowArgs rows))]
             \<and> err = map_option (Wrap ''upsert mysql rows'')
                       (ExecContext lib (executed b) (statement (length rows))
                          (concat (map rowArgs rows)))
             \<and> (err = None \<longrightarrow> rowCount b' = 0 \<and> args b' = [] \<and> valueSegments b' = [])"
  using n by (simp add: flushBatch_nonempty statement_def split: option.splits)

lemma rows_below_batch:
  assumes e: "rowCount b = 0" "args b = []" "valueSegments b = []"
    and n: "int (length rows) < energyBatchSize"
  shows "emitAll (appendRow lib) rows b =
     (None, b\<lparr>valueSegments := placeholders 0 (length rows),
              args := concat (map rowArgs rows),
              entityWatermarks := foldl advance (entityWatermarks b) rows,
              rowCount := int (length rows)\<rparr>)"
  using buffer_rows[of b rows lib] e n by simp

lemma rows_full_batch:
  assumes e: "rowCount b = 0" "args b = []" "valueSegments b = []"
    and n: "int (length rows) = energyBatchSize"
  shows "emitAll (appendRow lib) rows b =
     flushBatch lib (b\<lparr>valueSegments := placeholders 0 (length rows),
              args := concat (map rowArgs rows),
              entityWatermarks := foldl advance (entityWatermarks b) rows,
              rowCount := int (length rows)\<rparr>)"
proof -
  from n have ne: "rows \<noteq> []" by (auto simp: energyBatchSize_def)
  then obtain rs r where rows: "rows = rs @ [r]" by (metis rev_exhaust)
  with n have len: "int (length rs) < energyBatchSize" "int (length rs) + 1 = energyBatchSize"
    by simp_all
  have first: "emitAll (appendRow lib) rs b =
     (None, b\<lparr>valueSegments := placeholders 0 (length rs),
              args := concat (map rowArgs rs),
              entityWatermarks := foldl advance (entityWatermarks b) rs,
              rowCount := int (length rs)\<rparr>)"
    using e len(1) by (rule rows_below_batch)
  have ph: "placeholders 0 (length rs) @ placeholders (int (length rs)) 1
      = placeholders 0 (length (rs @ [r]))"
    using placeholders_add[of 0 "length rs" 1] by simp
  have target: "buffered r (b\<lparr>valueSegments := placeholders 0 (length rs),
              args := concat (map rowArgs rs),
              entityWatermarks := foldl advance (entityWatermarks b) rs,
              rowCount := int (length rs)\<rparr>)
      = b\<lparr>valueSegments := placeholders 0 (length (rs @ [r])),
              args := concat (map rowArgs (rs @ [r])),
              entityWatermarks := foldl advance (entityWatermarks b) (rs @ [r]),
              rowCount := int (length (rs @ [r]))\<rparr>"
    unfolding buffered_def using ph by (simp del: placeholders.simps)
  have "emitAll (appendRow lib) (rs @ [r]) b
      = appendRow lib r (b\<lparr>valueSegments := placeholders 0 (length rs),
              args := concat (map rowArgs rs),
              entityWatermarks := foldl advance (entityWatermarks b) rs,
              rowCount := int (length rs)\<rparr>)"
    unfolding emitAll_append first by (simp split: prod.splits option.splits)
  also have "\<dots> = flushBatch lib (buffered r (b\<lparr>valueSegments := placeholders 0 (length rs),
              args := concat (map rowArgs rs),
              entityWatermarks := foldl advance (entityWatermarks b) rs,
              rowCount := int (length rs)\<rparr>))"
    using len(2) by (simp add: appendRow_buffered)
  finally show ?thesis
    unfolding target rows .
qed

text \<open>
  Claim C6.  From an empty buffer, fewer than 500 appended rows execute no statement
  and stay buffered; exactly 500 rows execute one statement, with the arguments of the
  500 rows, at the 500th append, and the buffer is empty if the statement succeeds.
  Flushing a buffer of 1 to 499 rows executes one statement with their arguments and
  empties the buffer if it succeeds; flushing an empty buffer does nothing.
\<close>

theorem batch_boundary:
  assumes "rowCount b = 0" "args b = []" "valueSegments b = []"
  shows
    "(int (length rows) < energyBatchSize \<longrightarrow>
        (case emitAll (appendRow lib) rows b of
           (err, b') \<Rightarrow>
             err = None \<and> executed b' = executed b \<and> rowCount b' = int (length rows)
             \<and> args b' = concat (map rowArgs rows)
             \<and> valueSegments b' = placeholders 0 (length rows)))
     \<and> (int (length rows) = energyBatchSize \<longrightarrow>
        (case emitAll (appendRow lib) rows b of
           (err, b') \<Rightarrow>
             executed b' = executed b @ [(statement (length rows), concat (map rowArgs rows))]
             \<and> err = map_option (Wrap ''upsert mysql rows'')
                       (ExecContext lib (executed b) (statement (length rows))
                          (concat (map rowArgs rows)))
             \<and> (err = None \<longrightarrow> rowCount b' = 0 \<and> args b' = [] \<and> valueSegments b' = [])))
     \<and> (0 < length rows \<and> int (length rows) < energyBatchSize \<longrightarrow>
        (case flushBatch lib (snd (emitAll (appendRow lib) rows b)) of
           (err, b') \<Rightarrow>
             executed b' = executed b @ [(statement (length rows), concat (map rowArgs rows))]
             \<and> err = map_option (Wrap ''upsert mysql rows'')
                       (ExecContext lib (executed b) (statement (length rows))
                          (concat (map rowArgs rows)))
             \<and> (err = None \<longrightarrow> rowCount b' = 0 \<and> args b' = [] \<and> valueSegments b' = [])))
     \<and> flushBatch lib b = (None, b)
     \<and> energyBatchSize = 500"
proof (intro conjI impI)
  assume "int (length rows) < energyBatchSize"
  then show "case emitAll (appendRow lib) rows b of
           (err, b') \<Rightarrow>
             err = None \<and> executed b' = executed b \<and> rowCount b' = int (length rows)
             \<and> args b' = concat (map rowArgs rows)
             \<and> valueSegments b' = placeholders 0 (length rows)"
    by (simp add: rows_below_batch[OF assms])
next
  assume n: "int (length rows) = energyBatchSize"
  then have "0 < length rows" "int (length rows) \<le> energyBatchSize"
    by (auto simp: energyBatchSize_def)
  from flush_after_rows[OF assms this, of lib]
  show "case emitAll (appendRow lib) rows b of
           (err, b') \<Rightarrow>
             executed b' = executed b @ [(statement (length rows), concat (map rowArgs rows))]
             \<and> err = map_option (Wrap ''upsert mysql rows'')
                       (ExecContext lib (executed b) (statement (length rows))
                          (concat (map rowArgs rows)))
             \<and> (err = None \<longrightarrow> rowCount b' = 0 \<and> args b' = [] \<and> valueSegments b' = [])"
    by (simp only: rows_full_batch[OF assms n])
next
  assume n: "0 < length rows \<and> int (length rows) < energyBatchSize"
  then have "0 < length rows" "int (length rows) \<le> energyBatchSize" by simp_all
  from flush_after_rows[OF assms this, of lib]
  show "case flushBatch lib (snd (emitAll (appendRow lib) rows b)) of
           (err, b') \<Rightarrow>
             executed b' = executed b @ [(statement (length rows), concat (map rowArgs rows))]
             \<and> err = map_option (Wrap ''upsert mysql rows'')
                       (ExecContext lib (executed b) (statement (length rows))
                          (concat (map rowArgs rows)))
             \<and> (err = None \<longrightarrow> rowCount b' = 0 \<and> args b' = [] \<and> valueSegments b' = [])"
    using n by (simp only: rows_below_batch[OF assms] snd_conv)
next
  show "flushBatch lib b = (None, b)"
    using assms by (simp add: flushBatch_def)
next
  show "energyBatchSize = 500" by (simp add: energyBatchSize_def)
qed

lemma wm_le_refl: "wm_le wm wm"
  by (simp add: wm_le_def)

lemma wm_le_trans: "wm_le a b \<Longrightarrow> wm_le b c \<Longrightarrow> wm_le a c"
  unfolding wm_le_def by (meson order_trans)

lemma wm_le_advance: "wm_le wm (advance wm row)"
  by (auto simp: wm_le_def advance_def split: option.splits)

lemma wm_le_appendRow: "wm_le (entityWatermarks b) (entityWatermarks (snd (appendRow lib row b)))"
  by (simp add: appendRow_watermarks wm_le_advance)

lemma loopBody_Inr:
  "loopBody lib m b (Inr r) =
     (case floatToNullTime lib (src_lastUpdatedVal r) of
        Inl e \<Rightarrow> (Some (WrapId ''convert last_updated_ts for state_id'' (src_stateID r) e), m, b)
      | Inr lu \<Rightarrow>
          if skipped b (src_entityID r) lu then (None, m, b)
          else (case extractEnergyMetadata lib (src_attributesJSON r) of
                  Inl e \<Rightarrow> (Some (WrapId ''parse attributes for state_id'' (src_stateID r) e), m, b)
                | Inr md \<Rightarrow> routeRow lib m b (builtRow lib r lu md)))"
  by (simp add: loopBody_def routeRow_def skipped_def builtRow_def Let_def
      split: sum.splits)

lemma loopBody_Inl: "loopBody lib m b (Inl e) = (Some (Wrap ''scan sqlite row'' e), m, b)"
  by (simp add: loopBody_def)

lemma Flush_result:
  "Flush lib emit m s =
     (if \<not> m_active m then (None, m, s)
      else if m_count m = 0 \<or> \<not> m_maxTimeValid m then (None, newMinuteAverager lib, s)
      else (fst (emit (groupRow lib m) s), newMinuteAverager lib, snd (emit (groupRow lib m) s)))"
  by (simp add: Flush_def Let_def reset_eq groupRow_def case_prod_beta)

lemma Flush_idle_after: "m_active m \<Longrightarrow> fst (snd (Flush lib emit m s)) = newMinuteAverager lib"
  by (simp add: Flush_result)

lemma Add_boundary:
  assumes "boundary m row"
  shows "Add lib emit m row s =
     (case Flush lib emit m s of
        (Some e, m1, s1) \<Rightarrow> (Some e, m1, s1)
      | (None, m1, s1) \<Rightarrow> (None, groupState lib [row], s1))"
proof (cases "Flush lib emit m s")
  case (fields err m1 s1)
  from assms have act: "m_active m" by (simp add: boundary_def)
  from Flush_idle_after[OF act, of lib emit s] fields have m1: "m1 = newMinuteAverager lib"
    by simp
  show ?thesis
  proof (cases err)
    case None
    have "Add lib emit m row s = Add lib emit (newMinuteAverager lib) row s1"
      using assms fields None m1
      by (simp add: Add_def Let_def boundary_def newMinuteAverager_def)
    then show ?thesis
      using fields None by (simp add: Add_idle[OF newMinuteAverager_idle])
  next
    case (Some e)
    then show ?thesis
      using assms fields by (simp add: Add_def Let_def boundary_def)
  qed
qed

lemma Add_no_boundary:
  assumes "\<not> boundary m row"
  shows "Add lib emit m row s =
     (None,
      (if \<not> m_active m then groupState lib [row]
       else if \<not> m_maxTimeValid m \<or> After (V (lastUpdated row)) (m_maxTime m)
          \<or> (V (lastUpdated row) = m_maxTime m \<and> stateID row > m_stateID m)
       then m\<lparr>m_sum := fadd lib (m_sum m) (V (numericState row)), m_count := m_count m + 1,
               m_maxTime := V (lastUpdated row), m_maxTimeValid := True,
               m_stateID := stateID row, m_meta := meta row\<rparr>
       else m\<lparr>m_sum := fadd lib (m_sum m) (V (numericState row)), m_count := m_count m + 1\<rparr>),
      s)"
proof (cases "m_active m")
  case False
  then show ?thesis by (simp add: Add_idle)
next
  case True
  with assms show ?thesis
    by (simp add: Add_def Let_def boundary_def)
qed

lemma Add_result:
  "(\<exists>m'. Add lib emit m row s = (None, m', s))
   \<or> (\<exists>m'. Add lib emit m row s
         = (fst (emit (groupRow lib m) s), m', snd (emit (groupRow lib m) s)))"
proof (cases "boundary m row")
  case False
  then show ?thesis by (simp add: Add_no_boundary)
next
  case True
  then have act: "m_active m" by (simp add: boundary_def)
  show ?thesis
  proof (cases "m_count m = 0 \<or> \<not> m_maxTimeValid m")
    case True
    with act \<open>boundary m row\<close> have "\<exists>m'. Add lib emit m row s = (None, m', s)"
      by (simp add: Add_boundary Flush_result)
    then show ?thesis by simp
  next
    case False
    with act \<open>boundary m row\<close> have "\<exists>m'. Add lib emit m row s
         = (fst (emit (groupRow lib m) s), m', snd (emit (groupRow lib m) s))"
      by (cases "fst (emit (groupRow lib m) s)") (simp_all add: Add_boundary Flush_result)
    then show ?thesis by simp
  qed
qed

lemma wm_le_Flush:
  "wm_le (entityWatermarks b) (entityWatermarks (snd (snd (Flush lib (appendRow lib) m b))))"
  by (simp add: Flush_result wm_le_refl wm_le_appendRow)

lemma wm_le_Add:
  "wm_le (entityWatermarks b) (entityWatermarks (snd (snd (Add lib (appendRow lib) m row b))))"
  using Add_result[of lib "appendRow lib" m row b]
  by (auto simp: wm_le_refl wm_le_appendRow)

lemma wm_le_routeRow:
  "wm_le (entityWatermarks b) (entityWatermarks (snd (snd (routeRow lib m b row))))"
proof (cases "shouldAggregateRow row")
  case True
  then show ?thesis by (simp add: routeRow_def wm_le_Add)
next
  case False
  show ?thesis
  proof (cases "Flush lib (appendRow lib) m b")
    case (fields err m1 b1)
    have 1: "wm_le (entityWatermarks b) (entityWatermarks b1)"
      using wm_le_Flush[of b lib m] fields by simp
    show ?thesis
    proof (cases err)
      case None
      have "wm_le (entityWatermarks b1) (entityWatermarks (snd (appendRow lib row b1)))"
        by (rule wm_le_appendRow)
      with 1 have "wm_le (entityWatermarks b) (entityWatermarks (snd (appendRow lib row b1)))"
        by (rule wm_le_trans)
      then show ?thesis using fields None False
        by (simp add: routeRow_def case_prod_beta)
    next
      case (Some e)
      then show ?thesis using fields 1 False by (simp add: routeRow_def)
    qed
  qed
qed

lemma wm_le_loopBody:
  "wm_le (entityWatermarks b) (entityWatermarks (snd (snd (loopBody lib m b item))))"
proof (cases item)
  case (Inl e)
  then show ?thesis by (simp add: loopBody_Inl wm_le_refl)
next
  case (Inr r)
  then show ?thesis
    by (simp add: loopBody_Inr wm_le_refl wm_le_routeRow split: sum.splits)
qed

lemma wm_le_transferLoop:
  "wm_le (entityWatermarks b) (entityWatermarks (snd (snd (transferLoop lib m b items))))"
proof (induction items arbitrary: m b)
  case Nil
  then show ?case by (simp add: wm_le_refl)
next
  case (Cons item items)
  show ?case
  proof (cases "loopBody lib m b item")
    case (fields err m1 b1)
    have 1: "wm_le (entityWatermarks b) (entityWatermarks b1)"
      using wm_le_loopBody[of b lib m item] fields by simp
    show ?thesis
    proof (cases err)
      case None
      from 1 Cons.IH[of b1 m1] have
        "wm_le (entityWatermarks b) (entityWatermarks (snd (snd (transferLoop lib m1 b1 items))))"
        by (rule wm_le_trans)
      then show ?thesis using fields None by simp
    next
      case (Some e)
      then show ?thesis using fields 1 by simp
    qed
  qed
qed

lemma grown_neq: "grown b b' \<Longrightarrow> b' \<noteq> b"
  by (auto simp: grown_def)

lemma grown_trans: "grown a b \<Longrightarrow> grown b c \<Longrightarrow> grown a c"
  by (auto simp: grown_def)

lemma grown_flushBatch: "rowCount b \<noteq> 0 \<Longrightarrow> length (executed (snd (flushBatch lib b))) = length (executed b) + 1"
  by (simp add: flushBatch_nonempty split: option.splits)

lemma grown_appendRow: "grown b (snd (appendRow lib row b))"
proof (cases "rowCount b + 1 \<ge> energyBatchSize")
  case True
  then have "rowCount (buffered row b) \<noteq> 0"
    by (simp add: buffered_def energyBatchSize_def)
  from grown_flushBatch[OF this, of lib] True show ?thesis
    by (simp add: appendRow_buffered grown_def) (simp add: buffered_def)
next
  case False
  then show ?thesis
    by (simp add: appendRow_buffered grown_def buffered_def)
qed

lemma grown_Flush:
  "snd (snd (Flush lib (appendRow lib) m b)) = b \<or> grown b (snd (snd (Flush lib (appendRow lib) m b)))"
  by (simp add: Flush_result grown_appendRow)

lemma Add_changes: "Add lib emit m row s \<noteq> (None, m, s')"
proof (cases "boundary m row")
  case True
  have "groupState lib [row] \<noteq> m"
    using True by (auto simp: boundary_def groupState_def)
  then show ?thesis
    using True by (auto simp: Add_boundary split: prod.splits option.splits)
next
  case False
  show ?thesis
  proof (cases "m_active m")
    case True
    have "m_count (fst (snd (Add lib emit m row s))) = m_count m + 1"
      using False True by (simp add: Add_no_boundary)
    then show ?thesis by auto
  next
    case False
    then have "m_active (fst (snd (Add lib emit m row s)))"
      by (simp add: Add_idle groupState_def)
    with False show ?thesis by auto
  qed
qed

lemma routeRow_changes: "routeRow lib m b row \<noteq> (None, m, b)"
proof (cases "shouldAggregateRow row")
  case True
  then show ?thesis by (simp add: routeRow_def Add_changes)
next
  case False
  show ?thesis
  proof (cases "Flush lib (appendRow lib) m b")
    case (fields err m1 b1)
    show ?thesis
    proof (cases err)
      case None
      from grown_Flush[of lib m b] fields have "b1 = b \<or> grown b b1" by simp
      moreover have "grown b1 (snd (appendRow lib row b1))" by (rule grown_appendRow)
      ultimately have "grown b (snd (appendRow lib row b1))"
        by (auto intro: grown_trans)
      then have "snd (appendRow lib row b1) \<noteq> b" by (rule grown_neq)
      then show ?thesis
        using False fields None by (auto simp: routeRow_def case_prod_beta)
    next
      case (Some e)
      then show ?thesis using False fields by (simp add: routeRow_def)
    qed
  qed
qed

text \<open>
  Claim C4.  For a reading whose timestamp converts, the loop body leaves the averager
  and the writer as they are and returns no error if and only if the timestamp is
  present, the reading's entity has a watermark and the timestamp is not after it.
  Every other reading is processed: the body returns an error or changes the state.
\<close>

theorem skip_iff_not_after_watermark:
  assumes "floatToNullTime lib (src_lastUpdatedVal r) = Inr lu"
  shows "(loopBody lib m b (Inr r) = (None, m, b))
       = (Valid lu \<and> (\<exists>w. entityWatermarks b (src_entityID r) = Some w \<and> \<not> After (V lu) w))"
proof -
  have sk: "skipped b (src_entityID r) lu
      = (Valid lu \<and> (\<exists>w. entityWatermarks b (src_entityID r) = Some w \<and> \<not> After (V lu) w))"
    by (simp add: skipped_def split: option.splits)
  show ?thesis
  proof (cases "skipped b (src_entityID r) lu")
    case True
    then show ?thesis using assms sk by (simp add: loopBody_Inr)
  next
    case False
    have "loopBody lib m b (Inr r) \<noteq> (None, m, b)"
      using assms False
      by (simp add: loopBody_Inr routeRow_changes split: sum.splits)
    then show ?thesis using False sk by simp
  qed
qed

text \<open>
  Claim C7.  \<open>appendRow\<close> sets the watermark of the row's entity to the row's instant
  when the row has one and the entity has no watermark or an earlier one, and leaves
  the map alone otherwise; \<open>flushBatch\<close> and a skipped reading leave it alone.  Over
  one iteration of the loop and over the whole run every entity's watermark stays or
  moves to a later instant, whether or not the run ends with an error.
\<close>

theorem watermarks_only_advance:
  "entityWatermarks (snd (appendRow lib row b)) =
     (if Valid (lastUpdated row)
         \<and> (case entityWatermarks b (entityID row) of
               None \<Rightarrow> True
             | Some current \<Rightarrow> current < V (lastUpdated row))
      then (entityWatermarks b)(entityID row \<mapsto> V (lastUpdated row))
      else entityWatermarks b)
   \<and> entityWatermarks (snd (flushBatch lib b)) = entityWatermarks b
   \<and> (floatToNullTime lib (src_lastUpdatedVal r) = Inr lu \<and> Valid lu
        \<and> entityWatermarks b (src_entityID r) = Some w \<and> \<not> After (V lu) w
      \<longrightarrow> loopBody lib m b (Inr r) = (None, m, b))
   \<and> (\<forall>e w. entityWatermarks b e = Some w \<longrightarrow>
         (\<exists>w'. entityWatermarks (snd (snd (loopBody lib m b item))) e = Some w' \<and> w \<le> w'))
   \<and> (\<forall>e w. watermarks e = Some w \<longrightarrow>
         (\<exists>w'. entityWatermarks (snd (snd (transferEnergyData lib watermarks items rowsErr))) e
                  = Some w' \<and> w \<le> w'))"
proof (intro conjI)
  show "entityWatermarks (snd (appendRow lib row b)) =
     (if Valid (lastUpdated row)
         \<and> (case entityWatermarks b (entityID row) of
               None \<Rightarrow> True
             | Some current \<Rightarrow> current < V (lastUpdated row))
      then (entityWatermarks b)(entityID row \<mapsto> V (lastUpdated row))
      else entityWatermarks b)"
    by (simp add: appendRow_watermarks advance_def)
  show "entityWatermarks (snd (flushBatch lib b)) = entityWatermarks b"
    by (rule flushBatch_watermarks)
  show "floatToNullTime lib (src_lastUpdatedVal r) = Inr lu \<and> Valid lu
        \<and> entityWatermarks b (src_entityID r) = Some w \<and> \<not> After (V lu) w
      \<longrightarrow> loopBody lib m b (Inr r) = (None, m, b)"
    by (simp add: loopBody_Inr skipped_def)
  show "\<forall>e w. entityWatermarks b e = Some w \<longrightarrow>
         (\<exists>w'. entityWatermarks (snd (snd (loopBody lib m b item))) e = Some w' \<and> w \<le> w')"
    using wm_le_loopBody[of b lib m item] by (simp add: wm_le_def)
  have "wm_le watermarks
     (entityWatermarks (snd (snd (transferEnergyData lib watermarks items rowsErr))))"
  proof (cases "transferLoop lib (newMinuteAverager lib)
      \<lparr>args = [], valueSegments = [], rowCount = 0,
        entityWatermarks = watermarks, executed = []\<rparr> items")
    case (fields err m1 b1)
    have 1: "wm_le watermarks (entityWatermarks b1)"
      using wm_le_transferLoop[of "\<lparr>args = [], valueSegments = [], rowCount = 0,
        entityWatermarks = watermarks, executed = []\<rparr>" lib "newMinuteAverager lib" items] fields
      by simp
    show ?thesis
    proof (cases "err = None \<and> rowsErr = None")
      case False
      then show ?thesis
        using fields 1 by (auto simp: transferEnergyData_def split: option.splits)
    next
      case True
      have 2: "wm_le (entityWatermarks b1)
          (entityWatermarks (snd (snd (Flush lib (appendRow lib) m1 b1))))"
        by (rule wm_le_Flush)
      show ?thesis
      proof (cases "Flush lib (appendRow lib) m1 b1")
        case f2: (fields err2 m2 b2)
        with 1 2 have "wm_le watermarks (entityWatermarks b2)"
          by (auto intro: wm_le_trans)
        then show ?thesis
          using True fields f2 flushBatch_watermarks[of lib b2]
          by (cases err2) (simp_all add: transferEnergyData_def case_prod_beta)
      qed
    qed
  qed
  then show "\<forall>e w. watermarks e = Some w \<longrightarrow>
         (\<exists>w'. entityWatermarks (snd (snd (transferEnergyData lib watermarks items rowsErr))) e
                  = Some w' \<and> w \<le> w')"
    by (simp add: wm_le_def)
qed

lemma sample_time:
  "floatToNullTime sample_lib \<lparr>V = Finite 1700000000, Valid = True\<rparr>
     = Inr \<lparr>V = 63835596800000000000, Valid = True\<rparr>"
  by (simp add: floatToNullTime_def sample_lib_def trunc_def Unix_def unixToInternal_def
      wrap64_def IsZero_def)

text \<open>
  A reading at the instant of its entity's watermark is skipped; with a watermark one
  nanosecond earlier it is not.
\<close>

theorem skip_iff_not_after_watermark_witness:
  "floatToNullTime sample_lib
       (src_lastUpdatedVal (scan 1 ''sensor.plug_power'' ''12.5''
          \<lparr>V = Finite 1700000000, Valid = True\<rparr> ''{}''))
     = Inr \<lparr>V = 63835596800000000000, Valid = True\<rparr>
   \<and> loopBody sample_lib (newMinuteAverager sample_lib)
        (newBatch [''sensor.plug_power'' \<mapsto> 63835596800000000000])
        (Inr (scan 1 ''sensor.plug_power'' ''12.5'' \<lparr>V = Finite 1700000000, Valid = True\<rparr> ''{}''))
      = (None, newMinuteAverager sample_lib,
         newBatch [''sensor.plug_power'' \<mapsto> 63835596800000000000])
   \<and> loopBody sample_lib (newMinuteAverager sample_lib)
        (newBatch [''sensor.plug_power'' \<mapsto> 63835596799999999999])
        (Inr (scan 1 ''sensor.plug_power'' ''12.5'' \<lparr>V = Finite 1700000000, Valid = True\<rparr> ''{}''))
      \<noteq> (None, newMinuteAverager sample_lib,
         newBatch [''sensor.plug_power'' \<mapsto> 63835596799999999999])"
proof -
  have t: "floatToNullTime sample_lib
       (src_lastUpdatedVal (scan 1 ''sensor.plug_power'' ''12.5''
          \<lparr>V = Finite 1700000000, Valid = True\<rparr> ''{}''))
     = Inr \<lparr>V = 63835596800000000000, Valid = True\<rparr>"
    by (simp add: scan_def sample_time)
  show ?thesis
    using t skip_iff_not_after_watermark [OF t, of "newMinuteAverager sample_lib"
        "newBatch [''sensor.plug_power'' \<mapsto> 63835596800000000000]"]
      skip_iff_not_after_watermark [OF t, of "newMinuteAverager sample_lib"
        "newBatch [''sensor.plug_power'' \<mapsto> 63835596799999999999]"]
    by (simp add: newBatch_def scan_def After_def)
qed

text \<open>
  500 and 499 copies of a row, with the sample sink.
\<close>

theorem batch_boundary_witness:
  "rowCount (newBatch Map.empty :: sample64 batch) = 0
   \<and> args (newBatch Map.empty :: sample64 batch) = []
   \<and> valueSegments (newBatch Map.empty :: sample64 batch) = []
   \<and> (case emitAll (appendRow sample_lib) (sample_rows 500) (newBatch Map.empty) of
        (err, b') \<Rightarrow>
          err = None \<and> rowCount b' = 0 \<and> args b' = [] \<and> valueSegments b' = []
          \<and> executed b' = [(statement 500, concat (map rowArgs (sample_rows 500)))])
   \<and> (case emitAll (appendRow sample_lib) (sample_rows 499) (newBatch Map.empty) of
        (err, b') \<Rightarrow> err = None \<and> rowCount b' = 499 \<and> executed b' = [])
   \<and> (case flushBatch sample_lib
               (snd (emitAll (appendRow sample_lib) (sample_rows 499) (newBatch Map.empty))) of
        (err, b') \<Rightarrow>
          err = None \<and> rowCount b' = 0 \<and> args b' = [] \<and> valueSegments b' = []
          \<and> executed b' = [(statement 499, concat (map rowArgs (sample_rows 499)))])"
proof -
  have e: "rowCount (newBatch Map.empty :: sample64 batch) = 0"
    "args (newBatch Map.empty :: sample64 batch) = []"
    "valueSegments (newBatch Map.empty :: sample64 batch) = []"
    by (simp_all add: newBatch_def)
  have l: "length (sample_rows 500) = 500" "length (sample_rows 499) = 499"
    by (simp_all add: sample_rows_def)
  have x: "ExecContext sample_lib = (\<lambda>before query as. None)"
    "executed (newBatch Map.empty :: sample64 batch) = []"
    by (simp_all add: sample_lib_def newBatch_def)
  have n: "int (length (sample_rows 500)) = energyBatchSize"
    "int (length (sample_rows 499)) < energyBatchSize"
    "0 < length (sample_rows 499) \<and> int (length (sample_rows 499)) < energyBatchSize"
    by (simp_all only: l energyBatchSize_def) simp_all
  note full = batch_boundary [OF e, of "sample_rows 500" sample_lib,
      THEN conjunct2, THEN conjunct1, THEN mp, OF n(1), unfolded l x]
  note below = batch_boundary [OF e, of "sample_rows 499" sample_lib,
      THEN conjunct1, THEN mp, OF n(2), unfolded l x]
  note flushed = batch_boundary [OF e, of "sample_rows 499" sample_lib,
      THEN conjunct2, THEN conjunct2, THEN conjunct1, THEN mp, OF n(3), unfolded l x]
  have 1: "case emitAll (appendRow sample_lib) (sample_rows 500) (newBatch Map.empty) of
        (err, b') \<Rightarrow>
          err = None \<and> rowCount b' = 0 \<and> args b' = [] \<and> valueSegments b' = []
          \<and> executed b' = [(statement 500, concat (map rowArgs (sample_rows 500)))]"
    using full by (cases "emitAll (appendRow sample_lib) (sample_rows 500) (newBatch Map.empty)") simp
  have 2: "case emitAll (appendRow sample_lib) (sample_rows 499) (newBatch Map.empty) of
        (err, b') \<Rightarrow> err = None \<and> rowCount b' = 499 \<and> executed b' = []"
    using below by (cases "emitAll (appendRow sample_lib) (sample_rows 499) (newBatch Map.empty)") simp
  have 3: "case flushBatch sample_lib
               (snd (emitAll (appendRow sample_lib) (sample_rows 499) (newBatch Map.empty))) of
        (err, b') \<Rightarrow>
          err = None \<and> rowCount b' = 0 \<and> args b' = [] \<and> valueSegments b' = []
          \<and> executed b' = [(statement 499, concat (map rowArgs (sample_rows 499)))]"
    using flushed by (cases "flushBatch sample_lib
               (snd (emitAll (appendRow sample_lib) (sample_rows 499) (newBatch Map.empty)))") simp
  from e 1 2 3 show ?thesis by (intro conjI)
qed

subsection \<open>The pipeline driver\<close>

lemma groupState_single:
  "groupState lib [row] =
     \<lparr>m_active = True, m_entityID = entityID row,
      m_minute = Truncate (V (lastUpdated row)) Minute,
      m_sum = fadd lib (fzero lib) (V (numericState row)), m_count = 1,
      m_maxTime = V (lastUpdated row), m_maxTimeValid = True,
      m_stateID = stateID row, m_meta = meta row\<rparr>"
  by (simp add: groupState_def representative_single)


lemma transferLoop_Cons_ok:
  "loopBody lib m b item = (None, m1, b1) \<Longrightarrow>
   transferLoop lib m b (item # items) = transferLoop lib m1 b1 items"
  by simp

lemma transferLoop_Cons_err:
  "loopBody lib m b item = (Some e, m1, b1) \<Longrightarrow>
   transferLoop lib m b (item # items) = (Some e, m1, b1)"
  by simp

lemma loopBody_route:
  assumes "floatToNullTime lib (src_lastUpdatedVal r) = Inr lu"
    "\<not> skipped b (src_entityID r) lu"
    "extractEnergyMetadata lib (src_attributesJSON r) = Inr md"
  shows "loopBody lib m b (Inr r) = routeRow lib m b (builtRow lib r lu md)"
  using assms by (simp add: loopBody_Inr)







text \<open>
  A later row moves the watermark, an earlier row does not, a skipped reading leaves
  the state as it is, and the run of three readings ends with the latest instant.
\<close>

theorem watermarks_only_advance_witness:
  "entityWatermarks (snd (appendRow sample_lib (reading 1 ''sensor.plug_power'' 5 70000000000)
        (newBatch [''sensor.plug_power'' \<mapsto> 5000000000])))
     = [''sensor.plug_power'' \<mapsto> 70000000000]
   \<and> entityWatermarks (snd (appendRow sample_lib (reading 1 ''sensor.plug_power'' 5 4000000000)
        (newBatch [''sensor.plug_power'' \<mapsto> 5000000000])))
     = [''sensor.plug_power'' \<mapsto> 5000000000]
   \<and> floatToNullTime sample_lib (src_lastUpdatedVal sample_a)
       = Inr \<lparr>V = 63835596805000000000, Valid = True\<rparr>
   \<and> loopBody sample_lib (newMinuteAverager sample_lib)
        (newBatch [''sensor.plug_voltage'' \<mapsto> 63835596805000000000]) (Inr sample_a)
      = (None, newMinuteAverager sample_lib,
         newBatch [''sensor.plug_voltage'' \<mapsto> 63835596805000000000])
   \<and> entityWatermarks (snd (snd (transferEnergyData sample_lib
          [''sensor.plug_voltage'' \<mapsto> 5] [Inr sample_a, Inr sample_b, Inr sample_c] None)))
        ''sensor.plug_voltage'' = Some 63835596815000000000"
proof -
  let ?b = "newBatch [''sensor.plug_power'' \<mapsto> 5000000000] :: sample64 batch"
  let ?w = "newBatch [''sensor.plug_voltage'' \<mapsto> 63835596805000000000] :: sample64 batch"
  note thm1 = watermarks_only_advance [where lib = sample_lib and b = ?b
      and row = "reading 1 ''sensor.plug_power'' 5 70000000000", THEN conjunct1]
  note thm2 = watermarks_only_advance [where lib = sample_lib and b = ?b
      and row = "reading 1 ''sensor.plug_power'' 5 4000000000", THEN conjunct1]
  have 1: "entityWatermarks (snd (appendRow sample_lib (reading 1 ''sensor.plug_power'' 5 70000000000) ?b))
     = [''sensor.plug_power'' \<mapsto> 70000000000]"
    unfolding thm1 by (simp add: reading_def newBatch_def)
  have 2: "entityWatermarks (snd (appendRow sample_lib (reading 1 ''sensor.plug_power'' 5 4000000000) ?b))
     = [''sensor.plug_power'' \<mapsto> 5000000000]"
    unfolding thm2 by (simp add: reading_def newBatch_def)
  have t: "floatToNullTime sample_lib (src_lastUpdatedVal sample_a)
       = Inr \<lparr>V = 63835596805000000000, Valid = True\<rparr>"
    by code_simp
  have h: "floatToNullTime sample_lib (src_lastUpdatedVal sample_a)
       = Inr \<lparr>V = 63835596805000000000, Valid = True\<rparr>
     \<and> Valid \<lparr>V = 63835596805000000000 :: int, Valid = True\<rparr>
     \<and> entityWatermarks ?w (src_entityID sample_a) = Some 63835596805000000000
     \<and> \<not> After (V \<lparr>V = 63835596805000000000 :: int, Valid = True\<rparr>) 63835596805000000000"
    using t by (simp add: newBatch_def sample_a_def scan_def After_def)
  note 3 = watermarks_only_advance [where lib = sample_lib and b = ?w and r = sample_a
      and m = "newMinuteAverager sample_lib",
      THEN conjunct2, THEN conjunct2, THEN conjunct1, THEN mp, OF h]
  have run: "\<exists>w'. entityWatermarks (snd (snd (transferEnergyData sample_lib
          [''sensor.plug_voltage'' \<mapsto> 5] [Inr sample_a, Inr sample_b, Inr sample_c] None)))
        ''sensor.plug_voltage'' = Some w' \<and> 5 \<le> w'"
    using watermarks_only_advance [where lib = sample_lib
        and watermarks = "[''sensor.plug_voltage'' \<mapsto> 5]"
        and items = "[Inr sample_a, Inr sample_b, Inr sample_c]" and rowsErr = None,
        THEN conjunct2, THEN conjunct2, THEN conjunct2, THEN conjunct2]
    by simp
  have 4: "entityWatermarks (snd (snd (transferEnergyData sample_lib
          [''sensor.plug_voltage'' \<mapsto> 5] [Inr sample_a, Inr sample_b, Inr sample_c] None)))
        ''sensor.plug_voltage'' = Some 63835596815000000000"
    by code_simp
  from run 1 2 t 3 4 show ?thesis by simp
qed

lemma parseNumericState_valid:
  "Valid (parseNumericState lib raw) = (raw \<noteq> [] \<and> (\<exists>f. ParseFloat lib raw = Inr f))"
  by (cases "ParseFloat lib raw") (simp_all add: parseNumericState_def Null_zero_def)

lemma parseNumericState_invalid:
  "\<not> Valid (parseNumericState lib raw) \<Longrightarrow> parseNumericState lib raw = Null_zero lib"
  by (auto simp: parseNumericState_def Null_zero_def split: sum.splits if_splits)

text \<open>
  A run of averaged readings of one group that pass the filter of the loaded watermarks:
  the loop adds them to the averager and touches nothing else, and the end of the run
  appends the aggregate of the group and flushes the buffer.
\<close>

lemma loopBody_rowOf:
  assumes "rowOf lib r = Some row" "\<not> skipped b (entityID row) (lastUpdated row)"
  shows "loopBody lib m b (Inr r) = routeRow lib m b row"
  using assms
  by (auto simp: rowOf_def loopBody_Inr builtRow_def split: sum.splits)

lemma group_loop:
  assumes "g \<noteq> []"
    and "\<forall>r\<in>set rs. \<exists>row. rowOf lib r = Some row \<and> shouldAggregateRow row
           \<and> sameGroup (hd g) row \<and> \<not> skipped b (entityID row) (lastUpdated row)"
  shows "transferLoop lib (groupState lib g) b (map Inr rs)
       = (None, groupState lib (g @ map (\<lambda>x. the (rowOf lib x)) rs), b)"
  using assms
proof (induction rs arbitrary: g)
  case Nil
  then show ?case by simp
next
  case (Cons r rs)
  from Cons.prems(2) obtain row where row: "rowOf lib r = Some row" "shouldAggregateRow row"
    "sameGroup (hd g) row" "\<not> skipped b (entityID row) (lastUpdated row)" by auto
  have step: "loopBody lib (groupState lib g) b (Inr r) = (None, groupState lib (g @ [row]), b)"
    using row Cons.prems(1)
    by (simp add: loopBody_rowOf[OF row(1) row(4)] routeRow_def Add_same)
  have "transferLoop lib (groupState lib (g @ [row])) b (map Inr rs)
      = (None, groupState lib ((g @ [row]) @ map (\<lambda>x. the (rowOf lib x)) rs), b)"
    using Cons.prems by (intro Cons.IH) (auto simp: hd_append)
  with step row(1) show ?case by simp
qed

lemma group_run:
  fixes lib :: "'f lib"
  assumes ne: "rs \<noteq> []"
    and all: "\<forall>r\<in>set rs. \<exists>row. rowOf lib r = Some row \<and> shouldAggregateRow row
           \<and> sameGroup (the (rowOf lib (hd rs))) row
           \<and> (\<forall>w. watermarks (entityID row) = Some w \<longrightarrow> w < V (lastUpdated row))"
  shows "transferEnergyData lib watermarks (map Inr rs) None =
     (case appendRow lib (aggregate lib (map (\<lambda>x. the (rowOf lib x)) rs)) (newBatch watermarks) of
        (Some e, b1) \<Rightarrow> (Some e, newMinuteAverager lib, b1)
      | (None, b1) \<Rightarrow>
          (case flushBatch lib b1 of (err, b2) \<Rightarrow> (err, newMinuteAverager lib, b2)))"
proof -
  let ?b0 = "newBatch watermarks :: 'f batch"
  have sk: "\<not> skipped ?b0 (entityID row) (lastUpdated row)"
    if "\<forall>w. watermarks (entityID row) = Some w \<longrightarrow> w < V (lastUpdated row)" for row :: "'f energyRow"
    using that by (auto simp: skipped_def newBatch_def After_def split: option.splits)
  from ne obtain r rest where rs: "rs = r # rest" by (cases rs) auto
  from all rs sk have "\<exists>row. rowOf lib r = Some row \<and> shouldAggregateRow row
      \<and> \<not> skipped ?b0 (entityID row) (lastUpdated row)" by auto
  then obtain row where row: "rowOf lib r = Some row" "shouldAggregateRow row"
    "\<not> skipped ?b0 (entityID row) (lastUpdated row)" by blast
  have first: "loopBody lib (newMinuteAverager lib) ?b0 (Inr r) = (None, groupState lib [row], ?b0)"
    using row
    by (simp add: loopBody_rowOf[OF row(1) row(3)] routeRow_def Add_idle[OF newMinuteAverager_idle])
  have "\<forall>x\<in>set rest. \<exists>y. rowOf lib x = Some y \<and> shouldAggregateRow y
           \<and> sameGroup (hd [row]) y \<and> \<not> skipped ?b0 (entityID y) (lastUpdated y)"
    using all rs row(1) sk by fastforce
  from group_loop[OF _ this]
  have loop: "transferLoop lib (groupState lib [row]) ?b0 (map Inr rest)
      = (None, groupState lib ([row] @ map (\<lambda>x. the (rowOf lib x)) rest), ?b0)" by simp
  have rows: "[row] @ map (\<lambda>x. the (rowOf lib x)) rest = map (\<lambda>x. the (rowOf lib x)) rs"
    using rs row(1) by simp
  have "transferLoop lib (newMinuteAverager lib) ?b0 (map Inr rs)
      = (None, groupState lib (map (\<lambda>x. the (rowOf lib x)) rs), ?b0)"
    using first loop unfolding rows by (simp add: rs)
  moreover have "map (\<lambda>x. the (rowOf lib x)) rs \<noteq> []" using ne by simp
  ultimately show ?thesis
    by (simp add: transferEnergyData_def newBatch_def[symmetric] Flush_group
        split: prod.splits option.splits)
qed

text \<open>
  Claim C10, amended.  \<open>parseNumericState\<close> gives a present number exactly for a state
  string that is not empty and that \<open>ParseFloat\<close> accepts, and then the number is the
  parsed one; in every other case it gives an absent number and no error.  A reading
  that passes the filter and is not averaged (it has no timestamp, or no number, or its
  entity is not one of the averaged ones) goes on to the writer with its state string as
  it is and with that number, present or absent: the open group is flushed and the row
  is appended, and only the writer can fail.  Averaged readings are not exported one by
  one: a run of them in one group exports one row, whose number is the sum of their
  numbers divided by their count.
\<close>

theorem numeric_state_optional:
  fixes lib :: "'f lib"
  shows
  "Valid (parseNumericState lib raw) = (raw \<noteq> [] \<and> (\<exists>f. ParseFloat lib raw = Inr f))
   \<and> (raw \<noteq> [] \<and> ParseFloat lib raw = Inr f \<longrightarrow>
        parseNumericState lib raw = \<lparr>V = f, Valid = True\<rparr>)
   \<and> (floatToNullTime lib (src_lastUpdatedVal r) = Inr lu
        \<and> \<not> skipped b (src_entityID r) lu
        \<and> extractEnergyMetadata lib (src_attributesJSON r) = Inr md
        \<and> \<not> (Valid lu \<and> Valid (parseNumericState lib (src_state r))
               \<and> needsMinuteAverage (src_entityID r)) \<longrightarrow>
       loopBody lib m b (Inr r) =
         (case Flush lib (appendRow lib) m b of
            (Some e, m1, b1) \<Rightarrow> (Some e, m1, b1)
          | (None, m1, b1) \<Rightarrow>
              (case appendRow lib
                      \<lparr>stateID = src_stateID r, entityID = src_entityID r,
                       state = src_state r,
                       numericState = parseNumericState lib (src_state r), meta = md,
                       lastUpdated = lu\<rparr> b1 of
                 (err, b2) \<Rightarrow> (err, m1, b2))))
   \<and> (rs \<noteq> []
        \<and> (\<forall>x\<in>set rs. \<exists>row. rowOf lib x = Some row
              \<and> Valid (lastUpdated row) \<and> Valid (numericState row)
              \<and> needsMinuteAverage (entityID row)
              \<and> sameGroup (the (rowOf lib (hd rs))) row
              \<and> (\<forall>w. watermarks (entityID row) = Some w \<longrightarrow> w < V (lastUpdated row))) \<longrightarrow>
       transferEnergyData lib watermarks (map Inr rs) None =
         (case appendRow lib (aggregate lib (map (\<lambda>x. the (rowOf lib x)) rs)) (newBatch watermarks) of
            (Some e, b1) \<Rightarrow> (Some e, newMinuteAverager lib, b1)
          | (None, b1) \<Rightarrow>
              (case flushBatch lib b1 of (err, b2) \<Rightarrow> (err, newMinuteAverager lib, b2))))
   \<and> numericState (aggregate lib g)
       = \<lparr>V = fdiv lib (foldl (fadd lib) (fzero lib) (map (\<lambda>x. V (numericState x)) g))
                       (float64_of_int lib (int (length g))),
          Valid = True\<rparr>"
proof (intro conjI impI)
  show "Valid (parseNumericState lib raw) = (raw \<noteq> [] \<and> (\<exists>f. ParseFloat lib raw = Inr f))"
    by (rule parseNumericState_valid)
  show "parseNumericState lib raw = \<lparr>V = f, Valid = True\<rparr>"
    if "raw \<noteq> [] \<and> ParseFloat lib raw = Inr f"
    using that by (simp add: parseNumericState_def)
  show "numericState (aggregate lib g)
       = \<lparr>V = fdiv lib (foldl (fadd lib) (fzero lib) (map (\<lambda>x. V (numericState x)) g))
                       (float64_of_int lib (int (length g))),
          Valid = True\<rparr>"
    by (simp add: aggregate_def mean_def)
next
  assume h: "floatToNullTime lib (src_lastUpdatedVal r) = Inr lu
        \<and> \<not> skipped b (src_entityID r) lu
        \<and> extractEnergyMetadata lib (src_attributesJSON r) = Inr md
        \<and> \<not> (Valid lu \<and> Valid (parseNumericState lib (src_state r))
               \<and> needsMinuteAverage (src_entityID r))"
  have na: "\<not> shouldAggregateRow (builtRow lib r lu md)"
    using h by (simp add: shouldAggregateRow_def builtRow_def)
  have "loopBody lib m b (Inr r) = routeRow lib m b (builtRow lib r lu md)"
    using h by (simp add: loopBody_route)
  then show "loopBody lib m b (Inr r) =
         (case Flush lib (appendRow lib) m b of
            (Some e, m1, b1) \<Rightarrow> (Some e, m1, b1)
          | (None, m1, b1) \<Rightarrow>
              (case appendRow lib
                      \<lparr>stateID = src_stateID r, entityID = src_entityID r,
                       state = src_state r,
                       numericState = parseNumericState lib (src_state r), meta = md,
                       lastUpdated = lu\<rparr> b1 of
                 (err, b2) \<Rightarrow> (err, m1, b2)))"
    using na by (simp add: routeRow_def builtRow_def Let_def split: prod.splits option.splits)
next
  assume h: "rs \<noteq> []
        \<and> (\<forall>x\<in>set rs. \<exists>row. rowOf lib x = Some row
              \<and> Valid (lastUpdated row) \<and> Valid (numericState row)
              \<and> needsMinuteAverage (entityID row)
              \<and> sameGroup (the (rowOf lib (hd rs))) row
              \<and> (\<forall>w. watermarks (entityID row) = Some w \<longrightarrow> w < V (lastUpdated row)))"
  then have ne: "rs \<noteq> []" ..
  have all: "\<forall>x\<in>set rs. \<exists>row. rowOf lib x = Some row \<and> shouldAggregateRow row
           \<and> sameGroup (the (rowOf lib (hd rs))) row
           \<and> (\<forall>w. watermarks (entityID row) = Some w \<longrightarrow> w < V (lastUpdated row))"
    using h unfolding shouldAggregateRow_def by blast
  show "transferEnergyData lib watermarks (map Inr rs) None =
         (case appendRow lib (aggregate lib (map (\<lambda>x. the (rowOf lib x)) rs)) (newBatch watermarks) of
            (Some e, b1) \<Rightarrow> (Some e, newMinuteAverager lib, b1)
          | (None, b1) \<Rightarrow>
              (case flushBatch lib b1 of (err, b2) \<Rightarrow> (err, newMinuteAverager lib, b2)))"
    using ne all by (rule group_run)
qed

text \<open>
  "12.5" parses, "unavailable" and the empty string do not; the reading with the state
  "unavailable" is buffered with its state string and no number, the reading "12.5" of
  a power sensor with its number; the voltage readings 2 and 4 are written as one row
  with the number 3.
\<close>

theorem numeric_state_optional_witness:
  "parseNumericState sample_lib ''12.5'' = \<lparr>V = Finite (25 / 2), Valid = True\<rparr>
   \<and> \<not> Valid (parseNumericState sample_lib ''unavailable'')
   \<and> \<not> Valid (parseNumericState sample_lib [])
   \<and> loopBody sample_lib (newMinuteAverager sample_lib) (newBatch Map.empty) (Inr sample_b)
      = (None, newMinuteAverager sample_lib,
         \<lparr>args = [ArgString ''sensor.plug_voltage'', ArgString ''unavailable'',
                  ArgNullFloat64 \<lparr>V = Finite 0, Valid = False\<rparr>,
                  ArgNullString NullString_zero, ArgNullString NullString_zero,
                  ArgNullString NullString_zero, ArgNullString NullString_zero,
                  ArgNullTime \<lparr>V = 63835596810000000000, Valid = True\<rparr>],
           valueSegments = CHR 0x0A # ''    (?, ?, ?, ?, ?, ?, ?, ?)'', rowCount = 1,
           entityWatermarks = [''sensor.plug_voltage'' \<mapsto> 63835596810000000000],
           executed = []\<rparr>)
   \<and> loopBody sample_lib (newMinuteAverager sample_lib) (newBatch Map.empty) (Inr sample_e)
      = (None, newMinuteAverager sample_lib,
         \<lparr>args = [ArgString ''sensor.plug_power'', ArgString ''12.5'',
                  ArgNullFloat64 \<lparr>V = Finite (25 / 2), Valid = True\<rparr>,
                  ArgNullString NullString_zero, ArgNullString NullString_zero,
                  ArgNullString NullString_zero, ArgNullString NullString_zero,
                  ArgNullTime \<lparr>V = 63835596820000000000, Valid = True\<rparr>],
           valueSegments = CHR 0x0A # ''    (?, ?, ?, ?, ?, ?, ?, ?)'', rowCount = 1,
           entityWatermarks = [''sensor.plug_power'' \<mapsto> 63835596820000000000],
           executed = []\<rparr>)
   \<and> fst (transferEnergyData sample_lib Map.empty [Inr sample_a, Inr sample_c] None) = None
   \<and> map snd (executed (snd (snd (transferEnergyData sample_lib Map.empty
            [Inr sample_a, Inr sample_c] None))))
      = [rowArgs (aggregate sample_lib
           [builtRow sample_lib sample_a \<lparr>V = 63835596805000000000, Valid = True\<rparr>
              energyMetadata_zero,
            builtRow sample_lib sample_c \<lparr>V = 63835596815000000000, Valid = True\<rparr>
              energyMetadata_zero])]
   \<and> numericState (aggregate sample_lib
           [builtRow sample_lib sample_a \<lparr>V = 63835596805000000000, Valid = True\<rparr>
              energyMetadata_zero,
            builtRow sample_lib sample_c \<lparr>V = 63835596815000000000, Valid = True\<rparr>
              energyMetadata_zero])
      = \<lparr>V = Finite 3, Valid = True\<rparr>"
proof -
  let ?la = "\<lparr>V = 63835596805000000000, Valid = True\<rparr> :: NullTime"
  let ?lb = "\<lparr>V = 63835596810000000000, Valid = True\<rparr> :: NullTime"
  let ?lc = "\<lparr>V = 63835596815000000000, Valid = True\<rparr> :: NullTime"
  let ?le = "\<lparr>V = 63835596820000000000, Valid = True\<rparr> :: NullTime"
  let ?ra = "builtRow sample_lib sample_a ?la energyMetadata_zero"
  let ?rc = "builtRow sample_lib sample_c ?lc energyMetadata_zero"
  have p: "ParseFloat sample_lib ''12.5'' = Inr (Finite (25 / 2))"
    "ParseFloat sample_lib ''unavailable'' = Inl (Err ''invalid syntax'')"
    by (simp_all add: sample_lib_def sample_ParseFloat_def)
  note v = numeric_state_optional [where lib = sample_lib, THEN conjunct1]
  note e = numeric_state_optional [where lib = sample_lib and raw = "''12.5''"
      and f = "Finite (25 / 2)", THEN conjunct2, THEN conjunct1, THEN mp]
  have 1: "parseNumericState sample_lib ''12.5'' = \<lparr>V = Finite (25 / 2), Valid = True\<rparr>"
    using p by (intro e) simp
  have 2: "\<not> Valid (parseNumericState sample_lib ''unavailable'')"
    unfolding v using p by simp
  have 3: "\<not> Valid (parseNumericState sample_lib [])"
    unfolding v by simp
  have hb: "floatToNullTime sample_lib (src_lastUpdatedVal sample_b) = Inr ?lb
        \<and> \<not> skipped (newBatch Map.empty :: sample64 batch) (src_entityID sample_b) ?lb
        \<and> extractEnergyMetadata sample_lib (src_attributesJSON sample_b) = Inr energyMetadata_zero
        \<and> \<not> (Valid ?lb \<and> Valid (parseNumericState sample_lib (src_state sample_b))
               \<and> needsMinuteAverage (src_entityID sample_b))"
    by (intro conjI) (code_simp, simp add: skipped_def newBatch_def, code_simp, code_simp)
  note lb = numeric_state_optional [where lib = sample_lib and r = sample_b
      and b = "newBatch Map.empty" and m = "newMinuteAverager sample_lib",
      THEN conjunct2, THEN conjunct2, THEN conjunct1, THEN mp, OF hb]
  have 4: "loopBody sample_lib (newMinuteAverager sample_lib) (newBatch Map.empty) (Inr sample_b)
      = (None, newMinuteAverager sample_lib,
         \<lparr>args = [ArgString ''sensor.plug_voltage'', ArgString ''unavailable'',
                  ArgNullFloat64 \<lparr>V = Finite 0, Valid = False\<rparr>,
                  ArgNullString NullString_zero, ArgNullString NullString_zero,
                  ArgNullString NullString_zero, ArgNullString NullString_zero,
                  ArgNullTime \<lparr>V = 63835596810000000000, Valid = True\<rparr>],
           valueSegments = CHR 0x0A # ''    (?, ?, ?, ?, ?, ?, ?, ?)'', rowCount = 1,
           entityWatermarks = [''sensor.plug_voltage'' \<mapsto> 63835596810000000000],
           executed = []\<rparr>)"
    unfolding lb
    by (simp add: Flush_idle[OF newMinuteAverager_idle] appendRow_buffered buffered_def
        newBatch_def energyBatchSize_def rowArgs_def advance_def sample_b_def scan_def
        Null_zero_def sample_lib_def energyMetadata_zero_def parseNumericState_def
        sample_ParseFloat_def)
  have he: "floatToNullTime sample_lib (src_lastUpdatedVal sample_e) = Inr ?le
        \<and> \<not> skipped (newBatch Map.empty :: sample64 batch) (src_entityID sample_e) ?le
        \<and> extractEnergyMetadata sample_lib (src_attributesJSON sample_e) = Inr energyMetadata_zero
        \<and> \<not> (Valid ?le \<and> Valid (parseNumericState sample_lib (src_state sample_e))
               \<and> needsMinuteAverage (src_entityID sample_e))"
    by (intro conjI) (code_simp, simp add: skipped_def newBatch_def, code_simp, code_simp)
  note le = numeric_state_optional [where lib = sample_lib and r = sample_e
      and b = "newBatch Map.empty" and m = "newMinuteAverager sample_lib",
      THEN conjunct2, THEN conjunct2, THEN conjunct1, THEN mp, OF he]
  have pe: "parseNumericState sample_lib (src_state sample_e) = \<lparr>V = Finite (25 / 2), Valid = True\<rparr>"
    using 1 by (simp add: sample_e_def scan_def)
  have 5: "loopBody sample_lib (newMinuteAverager sample_lib) (newBatch Map.empty) (Inr sample_e)
      = (None, newMinuteAverager sample_lib,
         \<lparr>args = [ArgString ''sensor.plug_power'', ArgString ''12.5'',
                  ArgNullFloat64 \<lparr>V = Finite (25 / 2), Valid = True\<rparr>,
                  ArgNullString NullString_zero, ArgNullString NullString_zero,
                  ArgNullString NullString_zero, ArgNullString NullString_zero,
                  ArgNullTime \<lparr>V = 63835596820000000000, Valid = True\<rparr>],
           valueSegments = CHR 0x0A # ''    (?, ?, ?, ?, ?, ?, ?, ?)'', rowCount = 1,
           entityWatermarks = [''sensor.plug_power'' \<mapsto> 63835596820000000000],
           executed = []\<rparr>)"
    unfolding le pe
    by (simp add: Flush_idle[OF newMinuteAverager_idle] appendRow_buffered buffered_def
        newBatch_def energyBatchSize_def rowArgs_def advance_def sample_e_def scan_def
        energyMetadata_zero_def)
  have ra: "rowOf sample_lib sample_a = Some ?ra"
    by code_simp
  have rc: "rowOf sample_lib sample_c = Some ?rc"
    by code_simp
  have ok: "Valid (lastUpdated ?ra) \<and> Valid (numericState ?ra) \<and> needsMinuteAverage (entityID ?ra)
      \<and> sameGroup ?ra ?ra"
    "Valid (lastUpdated ?rc) \<and> Valid (numericState ?rc) \<and> needsMinuteAverage (entityID ?rc)
      \<and> sameGroup ?ra ?rc"
    by code_simp+
  have hg: "[sample_a, sample_c] \<noteq> []
        \<and> (\<forall>x\<in>set [sample_a, sample_c]. \<exists>row. rowOf sample_lib x = Some row
              \<and> Valid (lastUpdated row) \<and> Valid (numericState row)
              \<and> needsMinuteAverage (entityID row)
              \<and> sameGroup (the (rowOf sample_lib (hd [sample_a, sample_c]))) row
              \<and> (\<forall>w. Map.empty (entityID row) = Some w \<longrightarrow> w < V (lastUpdated row)))"
    using ok by (simp add: ra rc)
  note run = numeric_state_optional [where lib = sample_lib and rs = "[sample_a, sample_c]"
      and watermarks = Map.empty,
      THEN conjunct2, THEN conjunct2, THEN conjunct2, THEN conjunct1, THEN mp, OF hg]
  have rows: "map (\<lambda>x. the (rowOf sample_lib x)) [sample_a, sample_c] = [?ra, ?rc]"
    by (simp add: ra rc)
  have run': "transferEnergyData sample_lib Map.empty [Inr sample_a, Inr sample_c] None =
         (case appendRow sample_lib (aggregate sample_lib [?ra, ?rc]) (newBatch Map.empty) of
            (Some e, b1) \<Rightarrow> (Some e, newMinuteAverager sample_lib, b1)
          | (None, b1) \<Rightarrow>
              (case flushBatch sample_lib b1 of (err, b2) \<Rightarrow> (err, newMinuteAverager sample_lib, b2)))"
    using run unfolding rows by simp
  have ap: "appendRow sample_lib (aggregate sample_lib [?ra, ?rc]) (newBatch Map.empty)
      = (None, buffered (aggregate sample_lib [?ra, ?rc]) (newBatch Map.empty))"
    by (simp add: appendRow_buffered newBatch_def energyBatchSize_def)
  have 6: "fst (transferEnergyData sample_lib Map.empty [Inr sample_a, Inr sample_c] None) = None"
    unfolding run' ap
    by (simp add: flushBatch_def buffered_def newBatch_def sample_lib_def)
  have 7: "map snd (executed (snd (snd (transferEnergyData sample_lib Map.empty
            [Inr sample_a, Inr sample_c] None))))
      = [rowArgs (aggregate sample_lib [?ra, ?rc])]"
    unfolding run' ap
    by (simp add: flushBatch_def buffered_def newBatch_def sample_lib_def)
  note m = numeric_state_optional [where lib = sample_lib and g = "[?ra, ?rc]",
      THEN conjunct2, THEN conjunct2, THEN conjunct2, THEN conjunct2]
  have 8: "numericState (aggregate sample_lib [?ra, ?rc]) = \<lparr>V = Finite 3, Valid = True\<rparr>"
    unfolding m by code_simp
  from 1 2 3 4 5 6 7 8 show ?thesis by (intro conjI)
qed

text \<open>
  The claim as it is written fails for averaged readings: the voltage readings 2 and 4
  of one minute are exported as one row, whose number is 3 and whose state string is
  "3".
\<close>

theorem numeric_state_mean_counterexample:
  "parseNumericState sample_lib (src_state sample_a) = \<lparr>V = Finite 2, Valid = True\<rparr>
   \<and> parseNumericState sample_lib (src_state sample_c) = \<lparr>V = Finite 4, Valid = True\<rparr>
   \<and> fst (transferEnergyData sample_lib Map.empty [Inr sample_a, Inr sample_c] None) = None
   \<and> map snd (executed (snd (snd (transferEnergyData sample_lib Map.empty
            [Inr sample_a, Inr sample_c] None))))
      = [[ArgString ''sensor.plug_voltage'', ArgString ''3'',
          ArgNullFloat64 \<lparr>V = Finite 3, Valid = True\<rparr>,
          ArgNullString NullString_zero, ArgNullString NullString_zero,
          ArgNullString NullString_zero, ArgNullString NullString_zero,
          ArgNullTime \<lparr>V = 63835596815000000000, Valid = True\<rparr>]]"
  by code_simp

lemma covered_mono: "wm_le wm wm' \<Longrightarrow> covered wm e t \<Longrightarrow> covered wm' e t"
  unfolding wm_le_def covered_def by (meson order_trans)

lemma covered_earlier: "covered wm e t' \<Longrightarrow> t \<le> t' \<Longrightarrow> covered wm e t"
  unfolding covered_def by (meson order_trans)

lemma covered_advance:
  "Valid (lastUpdated row) \<Longrightarrow> covered (advance wm row) (entityID row) (V (lastUpdated row))"
  by (auto simp: covered_def advance_def split: option.splits)

lemma covered_appendRow:
  "Valid (lastUpdated row) \<Longrightarrow>
   covered (entityWatermarks (snd (appendRow lib row b))) (entityID row) (V (lastUpdated row))"
  by (simp add: appendRow_watermarks covered_advance)

lemma wellFormed_new: "wellFormed (newMinuteAverager lib)"
  by (simp add: wellFormed_def newMinuteAverager_def)

lemma wellFormed_group: "wellFormed (groupState lib [row])"
  by (simp add: wellFormed_def groupState_single)

lemma held_group: "held (groupState lib [row]) (entityID row) (V (lastUpdated row))"
  by (simp add: held_def groupState_single)

lemma Flush_accounted:
  assumes "accounted m b P" "Flush lib (appendRow lib) m b = (None, m', b')"
  shows "\<not> m_active m' \<and> wellFormed m' \<and> (\<forall>(e, t)\<in>P. covered (entityWatermarks b') e t)"
proof (cases "m_active m")
  case False
  with assms show ?thesis
    by (auto simp: Flush_result accounted_def held_def)
next
  case True
  with assms(1) have wf: "0 < m_count m" "m_maxTimeValid m"
    by (simp_all add: accounted_def wellFormed_def)
  from assms(2) True wf have m': "m' = newMinuteAverager lib"
    and b': "b' = snd (appendRow lib (groupRow lib m) b)"
    by (simp_all add: Flush_result)
  have le: "wm_le (entityWatermarks b) (entityWatermarks b')"
    unfolding b' by (rule wm_le_appendRow)
  have top: "covered (entityWatermarks b') (m_entityID m) (m_maxTime m)"
    unfolding b' using covered_appendRow[of "groupRow lib m" lib b]
    by (simp add: groupRow_def)
  have "covered (entityWatermarks b') e t" if "(e, t) \<in> P" for e t
  proof -
    from assms(1) that have "covered (entityWatermarks b) e t \<or> held m e t"
      by (auto simp: accounted_def)
    then show ?thesis
    proof
      assume "covered (entityWatermarks b) e t"
      with le show ?thesis by (rule covered_mono)
    next
      assume "held m e t"
      then have "m_entityID m = e" "t \<le> m_maxTime m" by (simp_all add: held_def)
      with top show ?thesis by (auto intro: covered_earlier)
    qed
  qed
  then show ?thesis
    unfolding m' by (auto simp: newMinuteAverager_idle wellFormed_new)
qed

lemma Add_accounted:
  assumes inv: "accounted m b P" and v: "Valid (lastUpdated row)"
    and add: "Add lib (appendRow lib) m row b = (None, m', b')"
  shows "accounted m' b' (insert (entityID row, V (lastUpdated row)) P)"
proof (cases "boundary m row")
  case True
  from add True obtain m1 where fl: "Flush lib (appendRow lib) m b = (None, m1, b')"
    and m': "m' = groupState lib [row]"
    by (auto simp: Add_boundary split: prod.splits option.splits)
  from Flush_accounted[OF inv fl] have "\<forall>(e, t)\<in>P. covered (entityWatermarks b') e t"
    by simp
  then show ?thesis
    unfolding m' accounted_def using held_group[of lib row] wellFormed_group[of lib row]
    by auto
next
  case False
  show ?thesis
  proof (cases "m_active m")
    case idle: False
    with add have m': "m' = groupState lib [row]" and b': "b' = b"
      by (simp_all add: Add_idle)
    from inv idle have "\<forall>(e, t)\<in>P. covered (entityWatermarks b) e t"
      by (auto simp: accounted_def held_def)
    then show ?thesis
      unfolding m' b' accounted_def using held_group[of lib row] wellFormed_group[of lib row]
      by auto
  next
    case True
    with inv have wf: "0 < m_count m" "m_maxTimeValid m"
      by (simp_all add: accounted_def wellFormed_def)
    from False True have same: "entityID row = m_entityID m"
      by (simp add: boundary_def)
    from add False True have b': "b' = b" by (simp add: Add_no_boundary)
    from add False True wf have act: "m_active m'" "m_entityID m' = m_entityID m"
      "0 < m_count m'" "m_maxTimeValid m'" "m_maxTime m \<le> m_maxTime m'"
      "V (lastUpdated row) \<le> m_maxTime m'"
      by (auto simp: Add_no_boundary After_def split: if_splits)
    have "covered (entityWatermarks b) e t \<or> held m' e t" if "(e, t) \<in> P" for e t
    proof -
      from inv that have "covered (entityWatermarks b) e t \<or> held m e t"
        by (auto simp: accounted_def)
      then show ?thesis using act by (auto simp: held_def)
    qed
    moreover have "held m' (entityID row) (V (lastUpdated row))"
      using act same by (simp add: held_def)
    ultimately show ?thesis
      unfolding b' accounted_def using act by (auto simp: wellFormed_def)
  qed
qed

lemma accounted_skipped:
  assumes "accounted m b P" "skipped b e lu"
  shows "accounted m b (insert (e, V lu) P)"
proof -
  from assms(2) have "covered (entityWatermarks b) e (V lu)"
    by (auto simp: skipped_def covered_def After_def split: option.splits)
  with assms(1) show ?thesis by (auto simp: accounted_def)
qed

lemma routeRow_accounted:
  assumes inv: "accounted m b P" and r: "routeRow lib m b row = (None, m', b')"
  shows "accounted m' b' (if Valid (lastUpdated row)
           then insert (entityID row, V (lastUpdated row)) P else P)"
proof (cases "shouldAggregateRow row")
  case True
  then have "Valid (lastUpdated row)" by (simp add: shouldAggregateRow_def)
  moreover from r True have "Add lib (appendRow lib) m row b = (None, m', b')"
    by (simp add: routeRow_def)
  ultimately show ?thesis using Add_accounted[OF inv] by simp
next
  case False
  from r False obtain b1 where fl: "Flush lib (appendRow lib) m b = (None, m', b1)"
    and ap: "appendRow lib row b1 = (None, b')"
    by (auto simp: routeRow_def Let_def split: prod.splits option.splits)
  from Flush_accounted[OF inv fl] have idle: "wellFormed m'"
    and cov: "\<forall>(e, t)\<in>P. covered (entityWatermarks b1) e t" by simp_all
  have le: "wm_le (entityWatermarks b1) (entityWatermarks b')"
    using wm_le_appendRow[of b1 lib row] ap by simp
  have cov': "\<forall>(e, t)\<in>P. covered (entityWatermarks b') e t"
    using cov le by (auto intro: covered_mono)
  have "covered (entityWatermarks b') (entityID row) (V (lastUpdated row))"
    if "Valid (lastUpdated row)"
    using covered_appendRow[OF that, of lib b1] ap by simp
  with cov' idle show ?thesis by (auto simp: accounted_def)
qed

lemma loopBody_accounted:
  assumes inv: "accounted m b P" and ok: "loopBody lib m b item = (None, m', b')"
  shows "accounted m' b' (P \<union> stamp lib item)"
proof (cases item)
  case (Inl e)
  with ok show ?thesis by (simp add: loopBody_Inl)
next
  case (Inr r)
  show ?thesis
  proof (cases "floatToNullTime lib (src_lastUpdatedVal r)")
    case (Inl e)
    with ok Inr show ?thesis by (simp add: loopBody_Inr)
  next
    case lu: (Inr lu)
    show ?thesis
    proof (cases "skipped b (src_entityID r) lu")
      case True
      then have "Valid lu" by (simp add: skipped_def)
      with True ok Inr lu accounted_skipped[OF inv True] show ?thesis
        by (simp add: loopBody_Inr stamp_def)
    next
      case False
      show ?thesis
      proof (cases "extractEnergyMetadata lib (src_attributesJSON r)")
        case (Inl e)
        with ok Inr lu False show ?thesis by (simp add: loopBody_Inr)
      next
        case md: (Inr md)
        from ok Inr lu False md
        have "routeRow lib m b (builtRow lib r lu md) = (None, m', b')"
          by (simp add: loopBody_Inr)
        from routeRow_accounted[OF inv this] Inr lu show ?thesis
          by (simp add: stamp_def builtRow_def split: if_splits)
      qed
    qed
  qed
qed

lemma transferLoop_accounted:
  "accounted m b P \<Longrightarrow> transferLoop lib m b items = (None, m', b') \<Longrightarrow>
   accounted m' b' (P \<union> (\<Union>item\<in>set items. stamp lib item))"
proof (induction items arbitrary: m b P)
  case Nil
  then show ?case by simp
next
  case (Cons item items)
  from Cons.prems(2) obtain m1 b1 where step: "loopBody lib m b item = (None, m1, b1)"
    and rest: "transferLoop lib m1 b1 items = (None, m', b')"
    by (auto split: prod.splits option.splits)
  from loopBody_accounted[OF Cons.prems(1) step]
  have "accounted m1 b1 (P \<union> stamp lib item)" .
  from Cons.IH[OF this rest] show ?case
    by (simp add: Un_assoc)
qed

lemma transferLoop_converts:
  "transferLoop lib m b items = (None, m', b') \<Longrightarrow> item \<in> set items \<Longrightarrow>
   \<exists>r lu. item = Inr r \<and> floatToNullTime lib (src_lastUpdatedVal r) = Inr lu"
proof (induction items arbitrary: m b)
  case Nil
  then show ?case by simp
next
  case (Cons x items)
  from Cons.prems(1) obtain m1 b1 where step: "loopBody lib m b x = (None, m1, b1)"
    and rest: "transferLoop lib m1 b1 items = (None, m', b')"
    by (auto split: prod.splits option.splits)
  show ?case
  proof (cases "item = x")
    case True
    with step show ?thesis
      by (cases x; cases "floatToNullTime lib (src_lastUpdatedVal (projr x))")
         (auto simp: loopBody_Inl loopBody_Inr)
  next
    case False
    with Cons.prems(2) have "item \<in> set items" by simp
    with Cons.IH[OF rest] show ?thesis by simp
  qed
qed

lemma run_rowsErr:
  "transferEnergyData lib watermarks items rowsErr = (None, m1, b1) \<Longrightarrow> rowsErr = None"
  by (auto simp: transferEnergyData_def Let_def split: prod.splits option.splits)

lemma run_covers:
  assumes "transferEnergyData lib watermarks items rowsErr = (None, m1, b1)"
    and "item \<in> set items"
  shows "rowsErr = None
     \<and> (\<exists>r lu. item = Inr r \<and> floatToNullTime lib (src_lastUpdatedVal r) = Inr lu
          \<and> (Valid lu \<longrightarrow> covered (entityWatermarks b1) (src_entityID r) (V lu)))"
proof -
  let ?b0 = "newBatch watermarks :: 'a batch"
  from assms(1) obtain m2 b2 b3 where
    loop: "transferLoop lib (newMinuteAverager lib) ?b0 items = (None, m2, b2)"
    and re: "rowsErr = None"
    and fl: "Flush lib (appendRow lib) m2 b2 = (None, m1, b3)"
    and fb: "flushBatch lib b3 = (None, b1)"
    by (auto simp: transferEnergyData_def newBatch_def Let_def
        split: prod.splits option.splits)
  have "accounted (newMinuteAverager lib) ?b0 {}"
    by (simp add: accounted_def wellFormed_new)
  from transferLoop_accounted[OF this loop]
  have "accounted m2 b2 (\<Union>item\<in>set items. stamp lib item)" by simp
  from Flush_accounted[OF this fl]
  have cov: "\<forall>(e, t)\<in>(\<Union>item\<in>set items. stamp lib item). covered (entityWatermarks b3) e t"
    by simp
  have wm: "entityWatermarks b1 = entityWatermarks b3"
    using flushBatch_watermarks[of lib b3] fb by simp
  from transferLoop_converts[OF loop assms(2)] obtain r lu where
    item: "item = Inr r" "floatToNullTime lib (src_lastUpdatedVal r) = Inr lu" by auto
  have "covered (entityWatermarks b1) (src_entityID r) (V lu)" if "Valid lu"
  proof -
    from item that have "(src_entityID r, V lu) \<in> stamp lib item"
      by (simp add: stamp_def)
    with assms(2) cov show ?thesis unfolding wm by blast
  qed
  with re item show ?thesis by auto
qed

lemma transferLoop_all_skipped:
  assumes "\<forall>item\<in>set items. \<exists>r lu. item = Inr r
      \<and> floatToNullTime lib (src_lastUpdatedVal r) = Inr lu \<and> skipped b (src_entityID r) lu"
  shows "transferLoop lib m b items = (None, m, b)"
  using assms
proof (induction items)
  case Nil
  then show ?case by simp
next
  case (Cons item items)
  then obtain r lu where "item = Inr r" "floatToNullTime lib (src_lastUpdatedVal r) = Inr lu"
    "skipped b (src_entityID r) lu" by auto
  then have "loopBody lib m b item = (None, m, b)"
    by (simp add: loopBody_Inr)
  with Cons show ?case by simp
qed

lemma covered_skipped:
  "Valid lu \<Longrightarrow> covered (entityWatermarks b) e (V lu) \<Longrightarrow> skipped b e lu"
  by (auto simp: covered_def skipped_def After_def)

lemma lib_sink_irrelevant:
  "floatToNullTime (lib\<lparr>ExecContext := x\<rparr>) v = floatToNullTime lib v"
  "newMinuteAverager (lib\<lparr>ExecContext := x\<rparr>) = newMinuteAverager lib"
  by (simp_all add: floatToNullTime_def newMinuteAverager_def case_prod_beta)

text \<open>
  The loaded watermark of an entity is the latest timestamp among its rows, and every
  watermark of a run is a loaded one or a timestamp that the run has written.
\<close>

lemma tuples_rowArgs: "tuples (rowArgs row @ rest) = pointOf row # tuples rest"
  by (simp add: rowArgs_def pointOf_def)

lemma tuples_rows: "tuples (concat (map rowArgs rows)) = map pointOf rows"
  by (induction rows) (simp_all add: tuples_rowArgs)

lemma fold_max_ge: "(a::int) \<le> fold max xs a \<and> (\<forall>x\<in>set xs. x \<le> fold max xs a)"
proof (induction xs arbitrary: a)
  case Nil
  show ?case by simp
next
  case (Cons x xs)
  from Cons[of "max x a"] show ?case by auto
qed

lemma fold_max_in: "fold max xs (a::int) \<in> insert a (set xs)"
proof (induction xs arbitrary: a)
  case Nil
  show ?case by simp
next
  case (Cons x xs)
  from Cons[of "max x a"] show ?case by (auto simp: max_def split: if_splits)
qed

lemma maxLastUpdated_valid: "Valid (maxLastUpdated ts) = (\<exists>t\<in>set ts. Valid t)"
proof (cases "filter Valid ts")
  case Nil
  then show ?thesis
    by (auto simp: maxLastUpdated_def NullTime_zero_def filter_empty_conv)
next
  case (Cons t rest)
  then have "t \<in> set (filter Valid ts)" by simp
  then have "t \<in> set ts" "Valid t" by simp_all
  with Cons show ?thesis by (auto simp: maxLastUpdated_def)
qed

lemma maxLastUpdated_ge:
  assumes "t \<in> set ts" "Valid t"
  shows "V t \<le> V (maxLastUpdated ts)"
proof -
  from assms have m: "t \<in> set (filter Valid ts)" by simp
  then obtain x rest where f: "filter Valid ts = x # rest" by (cases "filter Valid ts") auto
  with m have "t = x \<or> t \<in> set rest" by simp
  with fold_max_ge[of "V x" "map V rest"] have "V t \<le> fold max (map V rest) (V x)" by auto
  with f show ?thesis by (simp add: maxLastUpdated_def)
qed

lemma maxLastUpdated_in:
  assumes "Valid (maxLastUpdated ts)"
  shows "maxLastUpdated ts \<in> set ts"
proof -
  from assms obtain x rest where f: "filter Valid ts = x # rest"
    by (cases "filter Valid ts") (auto simp: maxLastUpdated_def NullTime_zero_def)
  from fold_max_in[of "map V rest" "V x"]
  obtain y where y: "y \<in> set (x # rest)" "fold max (map V rest) (V x) = V y" by auto
  from y(1) f have "y \<in> set (filter Valid ts)" by simp
  then have "y \<in> set ts" "Valid y" by simp_all
  moreover have "maxLastUpdated ts = y"
    using f y(2) \<open>Valid y\<close> by (simp add: maxLastUpdated_def)
  ultimately show ?thesis by simp
qed

lemma load_distinct:
  "distinct (map fst res) \<Longrightarrow>
   foldl (\<lambda>watermarks (eid, ts). if Valid ts then watermarks(eid \<mapsto> V ts) else watermarks) acc res e
     = (case map_of res e of
          None \<Rightarrow> acc e
        | Some ts \<Rightarrow> if Valid ts then Some (V ts) else acc e)"
proof (induction res arbitrary: acc)
  case Nil
  show ?case by simp
next
  case (Cons p res)
  obtain k ts where p: "p = (k, ts)" by (cases p)
  from Cons.prems p have d: "distinct (map fst res)" and k: "k \<notin> fst ` set res" by auto
  from k have none: "map_of res k = None" by (simp add: map_of_eq_None_iff)
  show ?case
    unfolding p using Cons.IH[OF d] none
    by (auto split: option.splits)
qed

lemma loadedWatermarks_eq:
  "loadedWatermarks table e =
     (if \<exists>t. (e, t) \<in> set table \<and> Valid t
      then Some (V (maxLastUpdated (map snd (filter (\<lambda>p. fst p = e) table))))
      else None)"
proof -
  let ?f = "\<lambda>e. maxLastUpdated (map snd (filter (\<lambda>p. fst p = e) table))"
  have d: "distinct (map fst (selectWatermarks table))"
    by (simp add: selectWatermarks_def comp_def)
  have m: "map_of (selectWatermarks table) e
      = (if e \<in> fst ` set table then Some (?f e) else None)"
    unfolding selectWatermarks_def
    by (simp add: map_of_map_restrict restrict_map_def)
  have v: "Valid (?f e) = (\<exists>t. (e, t) \<in> set table \<and> Valid t)"
    by (force simp: maxLastUpdated_valid)
  have i: "e \<in> fst ` set table" if "(e, t) \<in> set table" for t
    using that by force
  show ?thesis
    unfolding loadedWatermarks_def loadEnergyEntityWatermarks_def load_distinct[OF d] m
    using v i by auto
qed

lemma loaded_covers:
  assumes "(e, t) \<in> set table" "Valid t"
  shows "covered (loadedWatermarks table) e (V t)"
proof -
  have "t \<in> set (map snd (filter (\<lambda>p. fst p = e) table))"
    using assms(1) by force
  from maxLastUpdated_ge[OF this assms(2)] assms show ?thesis
    by (auto simp: covered_def loadedWatermarks_eq)
qed

lemma loaded_attained:
  assumes "loadedWatermarks table e = Some w"
  shows "(e, \<lparr>V = w, Valid = True\<rparr>) \<in> set table"
proof -
  let ?ts = "map snd (filter (\<lambda>p. fst p = e) table)"
  from assms have ex: "\<exists>t. (e, t) \<in> set table \<and> Valid t"
    and w: "w = V (maxLastUpdated ?ts)"
    by (auto simp: loadedWatermarks_eq split: if_splits)
  from ex have v: "Valid (maxLastUpdated ?ts)" by (force simp: maxLastUpdated_valid)
  from maxLastUpdated_in[OF v] have "(e, maxLastUpdated ?ts) \<in> set table" by auto
  moreover have "maxLastUpdated ?ts = \<lparr>V = w, Valid = True\<rparr>"
    using v w by simp
  ultimately show ?thesis by simp
qed


lemma traced_new: "traced w0 (newBatch w0)"
  unfolding traced_def by (rule exI[of _ "[]"]) (simp add: newBatch_def)

lemma traced_buffered:
  assumes "traced w0 b"
  shows "traced w0 (buffered row b)"
proof -
  from assms obtain rows where a: "args b = concat (map rowArgs rows)"
    and n: "rowCount b = int (length rows)"
    and w: "\<forall>e w. entityWatermarks b e = Some w \<longrightarrow>
              w0 e = Some w
              \<or> (e, \<lparr>V = w, Valid = True\<rparr>) \<in> set (written (executed b)) \<union> pointOf ` set rows"
    unfolding traced_def by blast
  have "w0 e = Some x
      \<or> (e, \<lparr>V = x, Valid = True\<rparr>) \<in> set (written (executed b)) \<union> pointOf ` set (rows @ [row])"
    if h: "advance (entityWatermarks b) row e = Some x" for e x
  proof (cases "entityWatermarks b e = Some x")
    case True
    with w show ?thesis by auto
  next
    case False
    with h have "e = entityID row" "x = V (lastUpdated row)" "Valid (lastUpdated row)"
      by (auto simp: advance_def split: if_splits)
    then have "pointOf row = (e, \<lparr>V = x, Valid = True\<rparr>)"
      by (simp add: pointOf_def)
    then show ?thesis by (metis UnI2 image_eqI in_set_conv_decomp)
  qed
  then show ?thesis
    unfolding traced_def
    by (intro exI[of _ "rows @ [row]"]) (simp add: buffered_def a n)
qed

lemma traced_flushBatch:
  assumes "traced w0 b" "flushBatch lib b = (None, b')"
  shows "traced w0 b' \<and> args b' = []"
proof -
  from assms(1) obtain rows where a: "args b = concat (map rowArgs rows)"
    and n: "rowCount b = int (length rows)"
    and w: "\<forall>e w. entityWatermarks b e = Some w \<longrightarrow>
              w0 e = Some w
              \<or> (e, \<lparr>V = w, Valid = True\<rparr>) \<in> set (written (executed b)) \<union> pointOf ` set rows"
    unfolding traced_def by blast
  show ?thesis
  proof (cases "rowCount b = 0")
    case True
    with n a have "args b = []" by simp
    moreover from True assms(2) have "b' = b" by (simp add: flushBatch_def)
    ultimately show ?thesis using assms(1) by simp
  next
    case False
    let ?q = "upsertPrefix @ valueSegments b @ [CHR 0x0A] @ upsertSuffix"
    from False assms(2)
    have b': "b' = b\<lparr>executed := executed b @ [(?q, args b)],
                     valueSegments := [], args := [], rowCount := 0\<rparr>"
      by (auto simp: flushBatch_def Let_def split: option.splits)
    have wr: "set (written (executed b')) = set (written (executed b)) \<union> pointOf ` set rows"
      unfolding b' by (simp add: written_def a tuples_rows)
    have "traced w0 b'"
      unfolding traced_def
    proof (intro exI[of _ "[]"] conjI allI impI)
      show "args b' = concat (map rowArgs [])" by (simp add: b')
      show "rowCount b' = int (length [])" by (simp add: b')
      fix e x
      assume "entityWatermarks b' e = Some x"
      then have "entityWatermarks b e = Some x" by (simp add: b')
      with w have "w0 e = Some x
          \<or> (e, \<lparr>V = x, Valid = True\<rparr>) \<in> set (written (executed b)) \<union> pointOf ` set rows"
        by blast
      then show "w0 e = Some x
          \<or> (e, \<lparr>V = x, Valid = True\<rparr>) \<in> set (written (executed b')) \<union> pointOf ` set []"
        unfolding wr by simp
    qed
    then show ?thesis by (simp add: b')
  qed
qed

lemma traced_appendRow:
  assumes "traced w0 b" "appendRow lib row b = (None, b')"
  shows "traced w0 b'"
proof (cases "rowCount b + 1 \<ge> energyBatchSize")
  case True
  with assms(2) have "flushBatch lib (buffered row b) = (None, b')"
    by (simp add: appendRow_buffered)
  from traced_flushBatch[OF traced_buffered[OF assms(1)] this] show ?thesis by simp
next
  case False
  with assms(2) have "b' = buffered row b" by (simp add: appendRow_buffered)
  with traced_buffered[OF assms(1)] show ?thesis by simp
qed

lemma traced_Flush:
  assumes "traced w0 b" "Flush lib (appendRow lib) m b = (None, m', b')"
  shows "traced w0 b'"
proof (cases "\<not> m_active m \<or> m_count m = 0 \<or> \<not> m_maxTimeValid m")
  case True
  with assms show ?thesis by (auto simp: Flush_result split: if_splits)
next
  case False
  with assms(2) have "appendRow lib (groupRow lib m) b = (None, b')"
    by (simp add: Flush_result prod_eq_iff)
  from traced_appendRow[OF assms(1) this] show ?thesis .
qed

lemma traced_Add:
  assumes "traced w0 b" "Add lib (appendRow lib) m row b = (None, m', b')"
  shows "traced w0 b'"
proof (cases "boundary m row")
  case True
  with assms(2) obtain m1 where "Flush lib (appendRow lib) m b = (None, m1, b')"
    by (auto simp: Add_boundary split: prod.splits option.splits)
  from traced_Flush[OF assms(1) this] show ?thesis .
next
  case False
  with assms show ?thesis by (simp add: Add_no_boundary)
qed

lemma traced_routeRow:
  assumes "traced w0 b" "routeRow lib m b row = (None, m', b')"
  shows "traced w0 b'"
proof (cases "shouldAggregateRow row")
  case True
  with assms(2) have "Add lib (appendRow lib) m row b = (None, m', b')"
    by (simp add: routeRow_def)
  from traced_Add[OF assms(1) this] show ?thesis .
next
  case False
  with assms(2) obtain b1 where fl: "Flush lib (appendRow lib) m b = (None, m', b1)"
    and ap: "appendRow lib row b1 = (None, b')"
    by (auto simp: routeRow_def Let_def split: prod.splits option.splits)
  from traced_appendRow[OF traced_Flush[OF assms(1) fl] ap] show ?thesis .
qed

lemma traced_loopBody:
  assumes "traced w0 b" "loopBody lib m b item = (None, m', b')"
  shows "traced w0 b'"
proof (cases item)
  case (Inl e)
  with assms show ?thesis by (simp add: loopBody_Inl)
next
  case (Inr r)
  with assms(2) have "b' = b \<or> (\<exists>row. routeRow lib m b row = (None, m', b'))"
    by (auto simp: loopBody_Inr split: sum.splits if_splits)
  with assms(1) traced_routeRow[OF assms(1)] show ?thesis by blast
qed

lemma traced_transferLoop:
  "traced w0 b \<Longrightarrow> transferLoop lib m b items = (None, m', b') \<Longrightarrow> traced w0 b'"
proof (induction items arbitrary: m b)
  case Nil
  then show ?case by simp
next
  case (Cons item items)
  from Cons.prems(2) obtain m1 b1 where step: "loopBody lib m b item = (None, m1, b1)"
    and rest: "transferLoop lib m1 b1 items = (None, m', b')"
    by (auto split: prod.splits option.splits)
  from Cons.IH[OF traced_loopBody[OF Cons.prems(1) step] rest] show ?case .
qed

lemma run_traced:
  assumes "transferEnergyData lib watermarks items rowsErr = (None, m1, b1)"
    and "entityWatermarks b1 e = Some w"
  shows "watermarks e = Some w \<or> (e, \<lparr>V = w, Valid = True\<rparr>) \<in> set (written (executed b1))"
proof -
  let ?b0 = "newBatch watermarks :: 'a batch"
  from assms(1) obtain m2 b2 b3 where
    loop: "transferLoop lib (newMinuteAverager lib) ?b0 items = (None, m2, b2)"
    and fl: "Flush lib (appendRow lib) m2 b2 = (None, m1, b3)"
    and fb: "flushBatch lib b3 = (None, b1)"
    by (auto simp: transferEnergyData_def newBatch_def Let_def
        split: prod.splits option.splits)
  from traced_flushBatch[OF traced_Flush[OF traced_transferLoop[OF traced_new loop] fl] fb]
  have t: "traced watermarks b1" and e: "args b1 = []" by simp_all
  from t obtain rows where a: "args b1 = concat (map rowArgs rows)"
    and w: "\<forall>e w. entityWatermarks b1 e = Some w \<longrightarrow>
              watermarks e = Some w
              \<or> (e, \<lparr>V = w, Valid = True\<rparr>) \<in> set (written (executed b1)) \<union> pointOf ` set rows"
    unfolding traced_def by blast
  from a e have "rows = []" by (cases rows) (simp_all add: rowArgs_def)
  with w assms(2) show ?thesis by auto
qed

text \<open>
  Claim C5, amended.  Let a run that started from the watermarks loaded from a table end
  without error, let every reading of the source have a timestamp, and let the column
  \<open>last_updated\<close> hold, of every timestamp that the run wrote, that instant or a later
  one.  Then a second run over the same source, with the watermarks loaded from the
  table after the first run, skips every reading: it returns no error, executes no
  statement, whatever the sink would answer, buffers nothing and leaves the watermarks
  as they are.
\<close>

theorem second_run_skips_timestamped_readings:
  assumes first: "transferEnergyData lib (loadedWatermarks table) items rowsErr = (None, m1, b1)"
    and present: "\<forall>item\<in>set items. \<forall>r lu. item = Inr r
        \<longrightarrow> floatToNullTime lib (src_lastUpdatedVal r) = Inr lu \<longrightarrow> Valid lu"
    and kept: "\<forall>(e, t)\<in>set (written (executed b1)). Valid t \<longrightarrow> V t \<le> keep (V t)"
  shows "transferEnergyData (lib\<lparr>ExecContext := sink\<rparr>)
           (loadedWatermarks (insertRows keep table (executed b1))) items rowsErr
       = (None, newMinuteAverager lib,
          newBatch (loadedWatermarks (insertRows keep table (executed b1))))"
proof -
  let ?w = "loadedWatermarks (insertRows keep table (executed b1))"
  let ?b = "newBatch ?w :: 'a batch"
  let ?lib = "lib\<lparr>ExecContext := sink\<rparr>"
  have up: "covered ?w e t" if c: "covered (entityWatermarks b1) e t" for e t
  proof -
    from c obtain w where w: "entityWatermarks b1 e = Some w" "t \<le> w"
      by (auto simp: covered_def)
    from run_traced[OF first w(1)] show ?thesis
    proof
      assume "loadedWatermarks table e = Some w"
      from loaded_attained[OF this]
      have "(e, \<lparr>V = w, Valid = True\<rparr>) \<in> set (insertRows keep table (executed b1))"
        by (simp add: insertRows_def)
      from loaded_covers[OF this] have "covered ?w e w" by simp
      then show ?thesis using w(2) by (rule covered_earlier)
    next
      assume m: "(e, \<lparr>V = w, Valid = True\<rparr>) \<in> set (written (executed b1))"
      with kept have k: "w \<le> keep w" by fastforce
      from m have "stored keep (e, \<lparr>V = w, Valid = True\<rparr>)
          \<in> set (insertRows keep table (executed b1))"
        by (simp add: insertRows_def)
      then have "(e, \<lparr>V = keep w, Valid = True\<rparr>)
          \<in> set (insertRows keep table (executed b1))"
        by (simp add: stored_def)
      from loaded_covers[OF this] have "covered ?w e (keep w)" by simp
      with k w(2) show ?thesis by (auto intro: covered_earlier)
    qed
  qed
  have "\<exists>r lu. item = Inr r \<and> floatToNullTime ?lib (src_lastUpdatedVal r) = Inr lu
      \<and> skipped ?b (src_entityID r) lu" if "item \<in> set items" for item
  proof -
    from run_covers[OF first that] obtain r lu where
      item: "item = Inr r" "floatToNullTime lib (src_lastUpdatedVal r) = Inr lu"
      and cov: "Valid lu \<longrightarrow> covered (entityWatermarks b1) (src_entityID r) (V lu)"
      by auto
    from present that item have v: "Valid lu" by blast
    with cov up have "skipped ?b (src_entityID r) lu"
      by (intro covered_skipped) (simp_all add: newBatch_def)
    with item show ?thesis by (simp add: lib_sink_irrelevant)
  qed
  then have loop: "transferLoop ?lib (newMinuteAverager ?lib) ?b items
      = (None, newMinuteAverager ?lib, ?b)"
    by (intro transferLoop_all_skipped) blast
  have re: "rowsErr = None"
    using first by (rule run_rowsErr)
  show ?thesis
    using loop re
    by (simp add: transferEnergyData_def newBatch_def[symmetric]
        Flush_idle[OF newMinuteAverager_idle])
       (simp add: flushBatch_def newBatch_def lib_sink_irrelevant)
qed

text \<open>
  The claim as it is written fails in two ways.  A reading without a timestamp is never
  skipped: the table of the first run holds its row with \<open>NULL\<close>, no watermark is
  loaded for its entity, and the second run inserts the row again.  And a reading a
  quarter of a second after a whole second is stored at the whole second by a column
  that holds whole seconds: the watermark loaded for the second run is earlier than the
  reading, which is inserted again.
\<close>

theorem second_run_inserts_again_counterexample:
  "fst (transferEnergyData sample_lib (loadedWatermarks []) [Inr sample_null] None) = None
   \<and> insertRows sample_DATETIME []
        (executed (snd (snd (transferEnergyData sample_lib (loadedWatermarks [])
           [Inr sample_null] None))))
      = [(''switch.plug'', NullTime_zero)]
   \<and> fst (transferEnergyData sample_lib (loadedWatermarks [(''switch.plug'', NullTime_zero)])
           [Inr sample_null] None) = None
   \<and> map snd (executed (snd (snd (transferEnergyData sample_lib
           (loadedWatermarks [(''switch.plug'', NullTime_zero)]) [Inr sample_null] None))))
      = [[ArgString ''switch.plug'', ArgString ''on'',
          ArgNullFloat64 \<lparr>V = Finite 0, Valid = False\<rparr>,
          ArgNullString NullString_zero, ArgNullString NullString_zero,
          ArgNullString NullString_zero, ArgNullString NullString_zero,
          ArgNullTime NullTime_zero]]
   \<and> insertRows sample_DATETIME [(''switch.plug'', NullTime_zero)]
        (executed (snd (snd (transferEnergyData sample_lib
           (loadedWatermarks [(''switch.plug'', NullTime_zero)]) [Inr sample_null] None))))
      = [(''switch.plug'', NullTime_zero), (''switch.plug'', NullTime_zero)]
   \<and> fst (transferEnergyData sample_lib (loadedWatermarks []) [Inr sample_f] None) = None
   \<and> insertRows sample_DATETIME []
        (executed (snd (snd (transferEnergyData sample_lib (loadedWatermarks [])
           [Inr sample_f] None))))
      = [(''sensor.plug_power'', \<lparr>V = 63835596805000000000, Valid = True\<rparr>)]
   \<and> fst (transferEnergyData sample_lib
           (loadedWatermarks [(''sensor.plug_power'', \<lparr>V = 63835596805000000000, Valid = True\<rparr>)])
           [Inr sample_f] None) = None
   \<and> map snd (executed (snd (snd (transferEnergyData sample_lib
           (loadedWatermarks [(''sensor.plug_power'', \<lparr>V = 63835596805000000000, Valid = True\<rparr>)])
           [Inr sample_f] None))))
      = [[ArgString ''sensor.plug_power'', ArgString ''5'',
          ArgNullFloat64 \<lparr>V = Finite 5, Valid = True\<rparr>,
          ArgNullString NullString_zero, ArgNullString NullString_zero,
          ArgNullString NullString_zero, ArgNullString NullString_zero,
          ArgNullTime \<lparr>V = 63835596805250000000, Valid = True\<rparr>]]
   \<and> insertRows sample_DATETIME
        [(''sensor.plug_power'', \<lparr>V = 63835596805000000000, Valid = True\<rparr>)]
        (executed (snd (snd (transferEnergyData sample_lib
           (loadedWatermarks [(''sensor.plug_power'', \<lparr>V = 63835596805000000000, Valid = True\<rparr>)])
           [Inr sample_f] None))))
      = [(''sensor.plug_power'', \<lparr>V = 63835596805000000000, Valid = True\<rparr>),
         (''sensor.plug_power'', \<lparr>V = 63835596805000000000, Valid = True\<rparr>)]"
  by code_simp

text \<open>
  Three readings at whole seconds, later than the rows of the table: the first run
  writes three rows in one statement, the column holds their instants as they are, and
  the second run, with the watermarks loaded from the table after the first run,
  executes nothing.
\<close>

theorem second_run_skips_timestamped_readings_witness:
  "fst first_run = None
   \<and> written (executed (snd (snd first_run)))
      = [(''sensor.plug_voltage'', \<lparr>V = 63835596805000000000, Valid = True\<rparr>),
         (''sensor.plug_voltage'', \<lparr>V = 63835596810000000000, Valid = True\<rparr>),
         (''sensor.plug_voltage'', \<lparr>V = 63835596815000000000, Valid = True\<rparr>)]
   \<and> loadedWatermarks (insertRows sample_DATETIME sample_table (executed (snd (snd first_run))))
        ''sensor.plug_voltage'' = Some 63835596815000000000
   \<and> transferEnergyData sample_lib
        (loadedWatermarks (insertRows sample_DATETIME sample_table (executed (snd (snd first_run)))))
        [Inr sample_a, Inr sample_b, Inr sample_c] None
      = (None, newMinuteAverager sample_lib,
         newBatch (loadedWatermarks
           (insertRows sample_DATETIME sample_table (executed (snd (snd first_run))))))
   \<and> executed (newBatch (loadedWatermarks
           (insertRows sample_DATETIME sample_table (executed (snd (snd first_run)))))
         :: sample64 batch) = []"
proof -
  have 1: "fst first_run = None"
    unfolding first_run_def by code_simp
  have 2: "written (executed (snd (snd first_run)))
      = [(''sensor.plug_voltage'', \<lparr>V = 63835596805000000000, Valid = True\<rparr>),
         (''sensor.plug_voltage'', \<lparr>V = 63835596810000000000, Valid = True\<rparr>),
         (''sensor.plug_voltage'', \<lparr>V = 63835596815000000000, Valid = True\<rparr>)]"
    unfolding first_run_def by code_simp
  have 3: "loadedWatermarks (insertRows sample_DATETIME sample_table (executed (snd (snd first_run))))
        ''sensor.plug_voltage'' = Some 63835596815000000000"
    unfolding first_run_def by code_simp
  have first: "transferEnergyData sample_lib (loadedWatermarks sample_table)
      [Inr sample_a, Inr sample_b, Inr sample_c] None
      = (None, fst (snd first_run), snd (snd first_run))"
    using 1 unfolding first_run_def by (metis prod.collapse)
  have t: "\<exists>t. floatToNullTime sample_lib (src_lastUpdatedVal sample_a) = Inr \<lparr>V = t, Valid = True\<rparr>"
    "\<exists>t. floatToNullTime sample_lib (src_lastUpdatedVal sample_b) = Inr \<lparr>V = t, Valid = True\<rparr>"
    "\<exists>t. floatToNullTime sample_lib (src_lastUpdatedVal sample_c) = Inr \<lparr>V = t, Valid = True\<rparr>"
    by (rule exI[of _ 63835596805000000000], code_simp,
        rule exI[of _ 63835596810000000000], code_simp,
        rule exI[of _ 63835596815000000000], code_simp)
  have present: "\<forall>item\<in>set [Inr sample_a, Inr sample_b, Inr sample_c]. \<forall>r lu. item = Inr r
        \<longrightarrow> floatToNullTime sample_lib (src_lastUpdatedVal r) = Inr lu \<longrightarrow> Valid lu"
    using t by auto
  have kept: "\<forall>(e, t)\<in>set (written (executed (snd (snd first_run)))).
      Valid t \<longrightarrow> V t \<le> sample_DATETIME (V t)"
    unfolding 2 by (simp add: sample_DATETIME_def)
  have x: "sample_lib\<lparr>ExecContext := ExecContext sample_lib\<rparr> = sample_lib"
    by simp
  note 4 = second_run_skips_timestamped_readings [OF first present kept,
      where sink = "ExecContext sample_lib", unfolded x]
  have 5: "executed (newBatch (loadedWatermarks
           (insertRows sample_DATETIME sample_table (executed (snd (snd first_run)))))
         :: sample64 batch) = []"
    by (simp add: newBatch_def)
  from 1 2 3 4 5 show ?thesis by (intro conjI)
qed

subsection \<open>Timestamps and payloads\<close>

lemma wrap64_id: "- (2 ^ 63) \<le> x \<Longrightarrow> x < 2 ^ 63 \<Longrightarrow> wrap64 x = x"
  unfolding wrap64_def by (simp add: mod_pos_pos_trivial)

lemma quot_bounds:
  assumes "- (2 ^ 62) \<le> n" "n \<le> 2 ^ 62"
  shows "- 4611686019 \<le> quot n 1000000000" "quot n 1000000000 \<le> 4611686019"
    "- 1000000000 < n - quot n 1000000000 * 1000000000"
    "n - quot n 1000000000 * 1000000000 < 1000000000"
  using assms unfolding quot_def by (auto simp: algebra_simps)

lemma Unix_instant:
  assumes s: "- (2 ^ 62) \<le> sec" "sec \<le> 2 ^ 62" and n: "- (2 ^ 62) \<le> nsec" "nsec \<le> 2 ^ 62"
  shows "Unix sec nsec = (sec + unixToInternal) * 1000000000 + nsec"
proof -
  let ?q = "quot nsec 1000000000"
  note q = quot_bounds[OF n]
  have u: "unixToInternal = 62135596800" by (simp add: unixToInternal_def)
  have w1: "wrap64 (sec + ?q) = sec + ?q"
    using s q by (intro wrap64_id) simp_all
  have w2: "wrap64 (sec + ?q - 1) = sec + ?q - 1"
    using s q by (intro wrap64_id) simp_all
  have w3: "wrap64 (sec + ?q + unixToInternal) = sec + ?q + unixToInternal"
    using s q unfolding u by (intro wrap64_id) simp_all
  have w4: "wrap64 (sec + ?q - 1 + unixToInternal) = sec + ?q - 1 + unixToInternal"
    using s q unfolding u by (intro wrap64_id) simp_all
  have w5: "wrap64 (sec + unixToInternal) = sec + unixToInternal"
    using s unfolding u by (intro wrap64_id) simp_all
  show ?thesis
  proof (cases "nsec < 0 \<or> nsec \<ge> 1000000000")
    case False
    then show ?thesis by (simp add: Unix_def w5)
  next
    case True
    show ?thesis
    proof (cases "nsec - ?q * 1000000000 < 0")
      case neg: True
      have "Unix sec nsec
          = wrap64 (sec + ?q - 1 + unixToInternal) * 1000000000
            + (nsec - ?q * 1000000000 + 1000000000)"
        using True neg by (simp add: Unix_def Let_def w1 w2)
      then show ?thesis unfolding w4 by (simp add: algebra_simps)
    next
      case pos: False
      have "Unix sec nsec
          = wrap64 (sec + ?q + unixToInternal) * 1000000000 + (nsec - ?q * 1000000000)"
        using True pos by (simp add: Unix_def Let_def w1)
      then show ?thesis unfolding w3 by (simp add: algebra_simps)
    qed
  qed
qed

text \<open>
  Claim C8, amended.  An absent input gives an absent output and no error.  A present
  input of which \<open>math.Modf\<close> returns a NaN part is an error: that is every NaN, and
  the infinities, whose fractional part is NaN.  Any other present input gives the
  instant of its whole seconds after the Unix epoch plus its fraction scaled to
  nanoseconds, unless that instant is Go's zero time: then the output is absent and
  there is no error.  The seconds and nanoseconds are taken within two to the power
  of 62 in size, where the \<open>int64\<close> arithmetic of \<open>time.Unix\<close> does not wrap.
\<close>

theorem floatToNullTime_result:
  "(\<not> Valid v \<longrightarrow> floatToNullTime lib v = Inr NullTime_zero)
   \<and> (Valid v \<and> (IsNaN lib (fst (Modf lib (V v))) \<or> IsNaN lib (snd (Modf lib (V v)))) \<longrightarrow>
        floatToNullTime lib v = Inl (Err ''invalid float for timestamp''))
   \<and> (Valid v \<and> \<not> IsNaN lib (fst (Modf lib (V v))) \<and> \<not> IsNaN lib (snd (Modf lib (V v)))
        \<and> sec = int64_of_float lib (fst (Modf lib (V v)))
        \<and> nsec = int64_of_float lib (fmul lib (snd (Modf lib (V v))) (f1e9 lib))
        \<and> - (2 ^ 62) \<le> sec \<and> sec \<le> 2 ^ 62 \<and> - (2 ^ 62) \<le> nsec \<and> nsec \<le> 2 ^ 62 \<longrightarrow>
        floatToNullTime lib v =
          (if (sec + 62135596800) * 1000000000 + nsec = 0 then Inr NullTime_zero
           else Inr \<lparr>V = (sec + 62135596800) * 1000000000 + nsec, Valid = True\<rparr>))"
proof (intro conjI impI)
  assume "\<not> Valid v"
  then show "floatToNullTime lib v = Inr NullTime_zero"
    by (simp add: floatToNullTime_def)
next
  assume "Valid v \<and> (IsNaN lib (fst (Modf lib (V v))) \<or> IsNaN lib (snd (Modf lib (V v))))"
  then show "floatToNullTime lib v = Inl (Err ''invalid float for timestamp'')"
    by (auto simp: floatToNullTime_def case_prod_beta)
next
  assume h: "Valid v \<and> \<not> IsNaN lib (fst (Modf lib (V v))) \<and> \<not> IsNaN lib (snd (Modf lib (V v)))
        \<and> sec = int64_of_float lib (fst (Modf lib (V v)))
        \<and> nsec = int64_of_float lib (fmul lib (snd (Modf lib (V v))) (f1e9 lib))
        \<and> - (2 ^ 62) \<le> sec \<and> sec \<le> 2 ^ 62 \<and> - (2 ^ 62) \<le> nsec \<and> nsec \<le> 2 ^ 62"
  then have "Unix sec nsec = (sec + unixToInternal) * 1000000000 + nsec"
    by (intro Unix_instant) simp_all
  then have "Unix sec nsec = (sec + 62135596800) * 1000000000 + nsec"
    by (simp add: unixToInternal_def)
  with h show "floatToNullTime lib v =
          (if (sec + 62135596800) * 1000000000 + nsec = 0 then Inr NullTime_zero
           else Inr \<lparr>V = (sec + 62135596800) * 1000000000 + nsec, Valid = True\<rparr>)"
    by (simp add: floatToNullTime_def case_prod_beta Let_def IsZero_def)
qed

text \<open>
  The claim as it is written fails at the present value \<open>-62135596800\<close>, the zero
  time in Unix seconds: the output is absent.
\<close>

theorem floatToNullTime_zero_instant_counterexample:
  "Valid \<lparr>V = Finite (- 62135596800), Valid = True\<rparr>
   \<and> \<not> IsNaN sample_lib (V \<lparr>V = Finite (- 62135596800), Valid = True\<rparr>)
   \<and> floatToNullTime sample_lib \<lparr>V = Finite (- 62135596800), Valid = True\<rparr>
       = Inr \<lparr>V = 0, Valid = False\<rparr>"
  by code_simp

text \<open>
  An absent value, a NaN, half a second after 1700000000, a second and a half
  before the epoch, and the zero time.
\<close>

theorem floatToNullTime_result_witness:
  "floatToNullTime sample_lib \<lparr>V = Finite 0, Valid = False\<rparr> = Inr NullTime_zero
   \<and> floatToNullTime sample_lib \<lparr>V = NaN, Valid = True\<rparr>
       = Inl (Err ''invalid float for timestamp'')
   \<and> floatToNullTime sample_lib \<lparr>V = Finite (3400000001 / 2), Valid = True\<rparr>
       = Inr \<lparr>V = 63835596800500000000, Valid = True\<rparr>
   \<and> floatToNullTime sample_lib \<lparr>V = Finite (- 3 / 2), Valid = True\<rparr>
       = Inr \<lparr>V = 62135596798500000000, Valid = True\<rparr>
   \<and> floatToNullTime sample_lib \<lparr>V = Finite (- 62135596800), Valid = True\<rparr>
       = Inr NullTime_zero"
proof -
  let ?absent = "\<lparr>V = Finite 0, Valid = False\<rparr>"
  let ?nan = "\<lparr>V = NaN, Valid = True\<rparr>"
  let ?half = "\<lparr>V = Finite (3400000001 / 2), Valid = True\<rparr>"
  let ?before = "\<lparr>V = Finite (- 3 / 2), Valid = True\<rparr>"
  let ?zero = "\<lparr>V = Finite (- 62135596800), Valid = True\<rparr>"
  have ha: "\<not> Valid ?absent" by simp
  have hb: "Valid ?nan \<and> (IsNaN sample_lib (fst (Modf sample_lib (V ?nan)))
      \<or> IsNaN sample_lib (snd (Modf sample_lib (V ?nan))))"
    by code_simp
  have hc: "Valid ?half \<and> \<not> IsNaN sample_lib (fst (Modf sample_lib (V ?half)))
        \<and> \<not> IsNaN sample_lib (snd (Modf sample_lib (V ?half)))
        \<and> 1700000000 = int64_of_float sample_lib (fst (Modf sample_lib (V ?half)))
        \<and> 500000000 = int64_of_float sample_lib
              (fmul sample_lib (snd (Modf sample_lib (V ?half))) (f1e9 sample_lib))
        \<and> - (2 ^ 62) \<le> (1700000000 :: int) \<and> (1700000000 :: int) \<le> 2 ^ 62
        \<and> - (2 ^ 62) \<le> (500000000 :: int) \<and> (500000000 :: int) \<le> 2 ^ 62"
    by code_simp
  have hd: "Valid ?before \<and> \<not> IsNaN sample_lib (fst (Modf sample_lib (V ?before)))
        \<and> \<not> IsNaN sample_lib (snd (Modf sample_lib (V ?before)))
        \<and> - 1 = int64_of_float sample_lib (fst (Modf sample_lib (V ?before)))
        \<and> - 500000000 = int64_of_float sample_lib
              (fmul sample_lib (snd (Modf sample_lib (V ?before))) (f1e9 sample_lib))
        \<and> - (2 ^ 62) \<le> (- 1 :: int) \<and> (- 1 :: int) \<le> 2 ^ 62
        \<and> - (2 ^ 62) \<le> (- 500000000 :: int) \<and> (- 500000000 :: int) \<le> 2 ^ 62"
    by code_simp
  have he: "Valid ?zero \<and> \<not> IsNaN sample_lib (fst (Modf sample_lib (V ?zero)))
        \<and> \<not> IsNaN sample_lib (snd (Modf sample_lib (V ?zero)))
        \<and> - 62135596800 = int64_of_float sample_lib (fst (Modf sample_lib (V ?zero)))
        \<and> 0 = int64_of_float sample_lib
              (fmul sample_lib (snd (Modf sample_lib (V ?zero))) (f1e9 sample_lib))
        \<and> - (2 ^ 62) \<le> (- 62135596800 :: int) \<and> (- 62135596800 :: int) \<le> 2 ^ 62
        \<and> - (2 ^ 62) \<le> (0 :: int) \<and> (0 :: int) \<le> 2 ^ 62"
    by code_simp
  note a = floatToNullTime_result [where lib = sample_lib and v = ?absent,
      THEN conjunct1, THEN mp, OF ha]
  note b = floatToNullTime_result [where lib = sample_lib and v = ?nan,
      THEN conjunct2, THEN conjunct1, THEN mp, OF hb]
  note c = floatToNullTime_result [where lib = sample_lib and v = ?half
      and sec = 1700000000 and nsec = 500000000, THEN conjunct2, THEN conjunct2, THEN mp, OF hc]
  note d = floatToNullTime_result [where lib = sample_lib and v = ?before
      and sec = "- 1" and nsec = "- 500000000", THEN conjunct2, THEN conjunct2, THEN mp, OF hd]
  note e = floatToNullTime_result [where lib = sample_lib and v = ?zero
      and sec = "- 62135596800" and nsec = 0, THEN conjunct2, THEN conjunct2, THEN mp, OF he]
  from a b c d e show ?thesis by simp
qed









lemma extractEnergyMetadata_error:
  "TrimSpace raw \<noteq> [] \<Longrightarrow> Unmarshal lib (TrimSpace raw) = Inl e \<Longrightarrow>
   extractEnergyMetadata lib raw = Inl (Wrap ''unmarshal shared_attrs'' e)"
  by (simp add: extractEnergyMetadata_def)

lemma extractCoordinates_empty:
  "extractCoordinates lib [] = Inr (Null_zero lib, Null_zero lib, Null_zero lib)"
  by (simp add: extractCoordinates_def)

lemma extractCoordinates_error:
  "raw \<noteq> [] \<Longrightarrow> Unmarshal lib raw = Inl e \<Longrightarrow>
   extractCoordinates lib raw = Inl (Wrap ''unmarshal shared_attrs'' e)"
  by (simp add: extractCoordinates_def)



end
